theory Spec2Isabelle
  imports
    Complex_Main
    "HOL-Library.Char_ord"
    "HOL-Library.List_Lexorder"
    "HOL-Library.Option_ord"
    "HOL-Library.Sublist"
begin

section \<open>SchedulerRoutes (agent/scheduler-routes.ts, unnamed/part_001 of the sources)\<close>

text \<open>
  \<^verbatim>\<open>interface SchedulerRoute { channelId: string; threadTs?: string; mode: "dm" | "channel" }\<close>
\<close>

datatype route_mode = Dm | Channel

record SchedulerRoute =
  channelId :: string
  threadTs :: "string option"
  mode :: route_mode

text \<open>
  The class has two private fields: \<open>latestRoute\<close> (initially undefined) and the map
  \<open>routesByJobId\<close> (initially empty). Each method returns the updated instance.
\<close>

record SchedulerRoutes =
  latestRoute :: "SchedulerRoute option"
  routesByJobId :: "string \<rightharpoonup> SchedulerRoute"

definition newSchedulerRoutes :: SchedulerRoutes where
  "newSchedulerRoutes = \<lparr>latestRoute = None, routesByJobId = Map.empty\<rparr>"

definition setLatestRoute :: "SchedulerRoute \<Rightarrow> SchedulerRoutes \<Rightarrow> SchedulerRoutes" where
  "setLatestRoute r s = s\<lparr>latestRoute := Some r\<rparr>"

definition bindJob :: "string \<Rightarrow> SchedulerRoutes \<Rightarrow> SchedulerRoutes" where
  "bindJob jobId s =
     (case latestRoute s of
        None \<Rightarrow> s
      | Some r \<Rightarrow> s\<lparr>routesByJobId := (routesByJobId s)(jobId \<mapsto> r)\<rparr>)"

definition removeJob :: "string \<Rightarrow> SchedulerRoutes \<Rightarrow> SchedulerRoutes" where
  "removeJob jobId s = s\<lparr>routesByJobId := (routesByJobId s)(jobId := None)\<rparr>"

text \<open>\<^verbatim>\<open>return this.routesByJobId.get(jobId) ?? this.latestRoute\<close>\<close>

definition resolve :: "string \<Rightarrow> SchedulerRoutes \<Rightarrow> SchedulerRoute option" where
  "resolve jobId s =
     (case routesByJobId s jobId of
        Some r \<Rightarrow> Some r
      | None \<Rightarrow> latestRoute s)"

text \<open>A method call on a \<open>SchedulerRoutes\<close> instance, and a sequence of calls run in order.\<close>

datatype routes_call = SetLatestRoute SchedulerRoute | BindJob string | RemoveJob string

fun routes_apply :: "routes_call \<Rightarrow> SchedulerRoutes \<Rightarrow> SchedulerRoutes" where
  "routes_apply (SetLatestRoute r) s = setLatestRoute r s"
| "routes_apply (BindJob j) s = bindJob j s"
| "routes_apply (RemoveJob j) s = removeJob j s"

definition routes_run :: "routes_call list \<Rightarrow> SchedulerRoutes \<Rightarrow> SchedulerRoutes" where
  "routes_run calls s = fold routes_apply calls s"

section \<open>SchedulerBridge (agent/scheduler-bridge.ts)\<close>

text \<open>
  \<^verbatim>\<open>interface SchedulerEventData { cwd?: string; event?: { jobId?, action?, status?, summary?, error? } }\<close>
  Every field of the event is optional.
\<close>

datatype sched_action = Added | Updated | Removed | Started | Finished

datatype sched_status = StatusOk | StatusError | StatusSkipped

record sched_event =
  ev_jobId :: "string option"
  ev_action :: "sched_action option"
  ev_status :: "sched_status option"
  ev_summary :: "string option"
  ev_error :: "string option"

text \<open>
  A message of the stream is either a system message of subtype \<open>scheduler_event\<close>, whose
  data \<open>parseSchedulerEventData\<close> casts and whose \<open>event\<close> field may be absent, or any other
  message.
\<close>

datatype bridge_message = SchedulerEventMsg "sched_event option" | OtherMsg

text \<open>\<open>a || b\<close> on optional strings: the empty string and undefined are both falsy.\<close>

definition js_or :: "string option \<Rightarrow> string option \<Rightarrow> string option" where
  "js_or a b = (case a of Some (c # cs) \<Rightarrow> Some (c # cs) | _ \<Rightarrow> b)"

text \<open>\<open>a ?? d\<close>: only undefined falls through to the default.\<close>

definition js_nullish :: "'a option \<Rightarrow> 'a \<Rightarrow> 'a" where
  "js_nullish a d = (case a of Some v \<Rightarrow> v | None \<Rightarrow> d)"

definition formatFinishedEventText :: "sched_event \<Rightarrow> string" where
  "formatFinishedEventText event =
     (let status = js_nullish (ev_status event) StatusOk;
          details = js_nullish (js_or (js_or (ev_summary event) (ev_error event)) (Some ''completed''))
                      ''completed''
      in if status = StatusOk
           then ''Scheduled job '' @ js_nullish (ev_jobId event) ''unknown'' @ '': '' @ details
         else if status = StatusSkipped
           then ''Scheduled job '' @ js_nullish (ev_jobId event) ''unknown'' @ '' was skipped: '' @ details
         else ''Scheduled job '' @ js_nullish (ev_jobId event) ''unknown'' @ '' failed: '' @ details)"

text \<open>
  Of \<open>WorkspaceSchedulerState\<close> the message handler reads the routing table only; \<open>closing\<close>
  is kept because the stream's end reads it. The bridge's observable effects are the calls
  of the delivery callback, in order, and the lines it logs.
\<close>

record WorkspaceSchedulerState =
  routes :: SchedulerRoutes
  closing :: bool

datatype bridge_log =
    WarnNoRoute string sched_event
  | ErrorDeliveryFailed string SchedulerRoute sched_event

record SchedulerBridge =
  workspaces :: "string \<rightharpoonup> WorkspaceSchedulerState"
  deliveries :: "(SchedulerRoute \<times> string) list"
  logged :: "bridge_log list"

text \<open>
  \<open>handleMessage\<close>. The callback \<open>onDelivery\<close> is a parameter: it answers whether the
  promise it returns resolves (\<open>True\<close>) or rejects (\<open>False\<close>); a rejection is caught and
  logged as an error.
\<close>

definition handleMessage ::
  "(SchedulerRoute \<Rightarrow> string \<Rightarrow> bool) \<Rightarrow> string \<Rightarrow> bridge_message \<Rightarrow> SchedulerBridge \<Rightarrow> SchedulerBridge"
where
  "handleMessage onDelivery workspaceDir message b =
     (case message of
        OtherMsg \<Rightarrow> b
      | SchedulerEventMsg parsed \<Rightarrow>
        (case workspaces b workspaceDir of
           None \<Rightarrow> b
         | Some state \<Rightarrow>
           (case parsed of
              None \<Rightarrow> b
            | Some event \<Rightarrow>
              (case (ev_action event, ev_jobId event) of
                 (Some action, Some (c # cs)) \<Rightarrow>
                   (let jobId = c # cs in
                    if action = Added then
                      b\<lparr>workspaces := (workspaces b)(workspaceDir \<mapsto>
                           state\<lparr>routes := bindJob jobId (routes state)\<rparr>)\<rparr>
                    else if action = Removed then
                      b\<lparr>workspaces := (workspaces b)(workspaceDir \<mapsto>
                           state\<lparr>routes := removeJob jobId (routes state)\<rparr>)\<rparr>
                    else if action \<noteq> Finished then b
                    else
                      (case resolve jobId (routes state) of
                         None \<Rightarrow> b\<lparr>logged := logged b @ [WarnNoRoute workspaceDir event]\<rparr>
                       | Some route \<Rightarrow>
                           (let text = formatFinishedEventText event;
                                b1 = b\<lparr>deliveries := deliveries b @ [(route, text)]\<rparr>
                            in if onDelivery route text then b1
                               else b1\<lparr>logged := logged b1 @
                                      [ErrorDeliveryFailed workspaceDir route event]\<rparr>)))
               | _ \<Rightarrow> b))))"

section \<open>ChannelQueue and QueueManager (queue.ts)\<close>

text \<open>
  A work item is a closure returning a promise; the model names it by a label of any type.
  How the promise of a started item settles is decided by the item, outside the queue.
\<close>

datatype outcome = Resolves | Rejects string

text \<open>What an observer sees of a queue: an item's closure is called, an item's promise settles.\<close>

datatype 'w observed = Start 'w | Finish 'w outcome

text \<open>
  The fields \<open>queue\<close> and \<open>processing\<close> are the class's own. \<open>inflight\<close> holds the calls of
  \<open>processNext\<close> that are suspended at \<open>await work()\<close>, each with the item it awaits: the
  type allows any number of them. \<open>observed\<close> and \<open>console_error\<close> record what happened.
\<close>

record 'w ChannelQueue =
  queue :: "'w list"
  processing :: bool
  inflight :: "'w list"
  observed :: "'w observed list"
  console_error :: "string list"

definition newChannelQueue :: "'w ChannelQueue" where
  "newChannelQueue = \<lparr>queue = [], processing = False, inflight = [], observed = [], console_error = []\<rparr>"

text \<open>
  \<open>processNext\<close> up to its \<open>await\<close>: the guard, the flag, \<open>queue.shift()\<close> and the call of
  the item.
\<close>

definition processNext :: "'w ChannelQueue \<Rightarrow> 'w ChannelQueue" where
  "processNext q =
     (if processing q \<or> queue q = [] then q
      else (case queue q of
              [] \<Rightarrow> q\<lparr>processing := True\<rparr>
            | work # rest \<Rightarrow>
                q\<lparr>processing := True, queue := rest,
                  inflight := inflight q @ [work],
                  observed := observed q @ [Start work]\<rparr>))"

definition enqueue :: "'w \<Rightarrow> 'w ChannelQueue \<Rightarrow> 'w ChannelQueue" where
  "enqueue work q = processNext (q\<lparr>queue := queue q @ [work]\<rparr>)"

text \<open>
  \<open>processNext\<close> from its \<open>await\<close> on, for the suspended call at position \<open>k\<close> of
  \<open>inflight\<close>: the \<open>catch\<close> block logs a rejection, the \<open>finally\<close> block clears the flag and
  calls \<open>processNext\<close> again. Where no call is suspended at \<open>k\<close> there is nothing to resume.
\<close>

definition resume :: "nat \<Rightarrow> outcome \<Rightarrow> 'w ChannelQueue \<Rightarrow> 'w ChannelQueue" where
  "resume k out q =
     (if k < length (inflight q) then
        (let work = inflight q ! k;
             q1 = q\<lparr>inflight := take k (inflight q) @ drop (Suc k) (inflight q),
                    observed := observed q @ [Finish work out]\<rparr>;
             q2 = (case out of
                     Resolves \<Rightarrow> q1
                   | Rejects err \<Rightarrow> q1\<lparr>console_error := console_error q1 @ [err]\<rparr>)
         in processNext (q2\<lparr>processing := False\<rparr>))
      else q)"

datatype 'w queue_event = Enqueue 'w | Settle nat outcome

fun queue_step :: "'w queue_event \<Rightarrow> 'w ChannelQueue \<Rightarrow> 'w ChannelQueue" where
  "queue_step (Enqueue work) q = enqueue work q"
| "queue_step (Settle k out) q = resume k out q"

definition queue_run :: "'w queue_event list \<Rightarrow> 'w ChannelQueue \<Rightarrow> 'w ChannelQueue" where
  "queue_run evs q = fold queue_step evs q"

text \<open>The items enqueued by a sequence of events, the items started and the items finished.\<close>

fun enqueued :: "'w queue_event list \<Rightarrow> 'w list" where
  "enqueued [] = []"
| "enqueued (Enqueue w # evs) = w # enqueued evs"
| "enqueued (Settle k out # evs) = enqueued evs"

fun started :: "'w observed list \<Rightarrow> 'w list" where
  "started [] = []"
| "started (Start w # obs) = w # started obs"
| "started (Finish w out # obs) = started obs"

fun finished :: "'w observed list \<Rightarrow> 'w list" where
  "finished [] = []"
| "finished (Start w # obs) = finished obs"
| "finished (Finish w out # obs) = w # finished obs"

text \<open>
  No overlap: in the record of observations every \<open>Start\<close> is followed by the \<open>Finish\<close> of the
  same item before anything else starts.
\<close>

fun serial :: "'w observed list \<Rightarrow> bool" where
  "serial [] = True"
| "serial [Start w] = True"
| "serial (Start w # Finish w' out # obs) = (w = w' \<and> serial obs)"
| "serial obs = False"

text \<open>
  \<open>QueueManager.getQueue\<close>: one queue per channel id, created on first use. An event of the
  manager is an event of the queue of one channel.
\<close>

type_synonym 'w QueueManager = "string \<rightharpoonup> 'w ChannelQueue"

definition getQueue :: "string \<Rightarrow> 'w QueueManager \<Rightarrow> 'w ChannelQueue \<times> 'w QueueManager" where
  "getQueue cid queues =
     (case queues cid of
        Some q \<Rightarrow> (q, queues)
      | None \<Rightarrow> (newChannelQueue, queues(cid \<mapsto> newChannelQueue)))"

definition manager_step :: "string \<times> 'w queue_event \<Rightarrow> 'w QueueManager \<Rightarrow> 'w QueueManager" where
  "manager_step ce queues =
     (let (q, queues1) = getQueue (fst ce) queues
      in queues1(fst ce \<mapsto> queue_step (snd ce) q))"

definition manager_run :: "(string \<times> 'w queue_event) list \<Rightarrow> 'w QueueManager \<Rightarrow> 'w QueueManager" where
  "manager_run ces queues = fold manager_step ces queues"

definition events_of :: "string \<Rightarrow> (string \<times> 'w queue_event) list \<Rightarrow> 'w queue_event list" where
  "events_of cid ces = map snd (filter (\<lambda>ce. fst ce = cid) ces)"

text \<open>
  The item whose \<open>Start\<close> is the last observation, if the record ends with one; and the
  invariant of the queue that the proofs below maintain, for the items \<open>ws\<close> enqueued so far.
\<close>

fun open_item :: "'w observed list \<Rightarrow> 'w option" where
  "open_item [] = None"
| "open_item [Start w] = Some w"
| "open_item (Start w # Finish w' out # obs) = open_item obs"
| "open_item (Finish w out # obs) = None"
| "open_item (Start w # Start w' # obs) = None"

definition queue_inv :: "'w list \<Rightarrow> 'w ChannelQueue \<Rightarrow> bool" where
  "queue_inv ws q \<longleftrightarrow>
     (processing q \<longleftrightarrow> inflight q \<noteq> [])
   \<and> length (inflight q) \<le> 1
   \<and> (queue q \<noteq> [] \<longrightarrow> inflight q \<noteq> [])
   \<and> started (observed q) @ queue q = ws
   \<and> finished (observed q) @ inflight q = started (observed q)
   \<and> serial (observed q)
   \<and> open_item (observed q) = (case inflight q of [] \<Rightarrow> None | w # _ \<Rightarrow> Some w)"

section \<open>runAgent: session persistence (the core agent execution, in agent/upload-tool.ts)\<close>

text \<open>
  Modelled from the spec: \<open>getSessionId\<close>, \<open>saveSessionId\<close> and \<open>clearSessionId\<close> are imported
  from \<open>./sessions\<close>, which is not among the sources. The spec gives session persistence as
  "a single opaque string per workspace, read before each run, written after a successful
  run, cleared when a resumed session is found to lack a required capability": a store from
  workspace directories to at most one string each.
\<close>

type_synonym session_store = "string \<rightharpoonup> string"

definition getSessionId :: "string \<Rightarrow> session_store \<Rightarrow> string option" where
  "getSessionId workspaceDir store = store workspaceDir"

definition saveSessionId :: "string \<Rightarrow> string \<Rightarrow> session_store \<Rightarrow> session_store" where
  "saveSessionId workspaceDir sid store = store(workspaceDir \<mapsto> sid)"

definition clearSessionId :: "string \<Rightarrow> session_store \<Rightarrow> session_store" where
  "clearSessionId workspaceDir store = store(workspaceDir := None)"

text \<open>
  The messages of the runtime's stream, with the fields that the session bookkeeping reads:
  a system message carries \<open>session_id\<close> and the optional list \<open>tools\<close>, a result message
  carries \<open>session_id\<close>. Assistant and user messages change neither \<open>sessionId\<close> nor
  \<open>missingFileSendTools\<close>.
\<close>

datatype sdk_message =
    SystemMessage string "string list option"
  | AssistantMessage
  | UserMessage
  | ResultMessage string

definition FILE_SEND_TOOL_CANDIDATES :: "string list" where
  "FILE_SEND_TOOL_CANDIDATES = [''SendFileToChat'', ''send_file_to_chat'']"

record run_vars =
  sessionId :: string
  missingFileSendTools :: bool

text \<open>One turn of the loop \<open>for await (const message of q)\<close>.\<close>

fun on_message :: "sdk_message \<Rightarrow> run_vars \<Rightarrow> run_vars" where
  "on_message (SystemMessage sid tools) v =
     (let toolNames = js_nullish tools [];
          availableFileSendTools = filter (\<lambda>t. t \<in> set toolNames) FILE_SEND_TOOL_CANDIDATES;
          v1 = v\<lparr>sessionId := sid\<rparr>
      in if length availableFileSendTools = 0 then v1\<lparr>missingFileSendTools := True\<rparr> else v1)"
| "on_message AssistantMessage v = v"
| "on_message UserMessage v = v"
| "on_message (ResultMessage sid) v = v\<lparr>sessionId := sid\<rparr>"

text \<open>
  The variables after the whole stream has been consumed and after
  \<open>if (!sessionId) sessionId = q.getSessionId()\<close>; \<open>querySessionId\<close> is what the query object
  answers.
\<close>

definition consume_stream :: "sdk_message list \<Rightarrow> string \<Rightarrow> run_vars" where
  "consume_stream messages querySessionId =
     (let v = fold on_message messages \<lparr>sessionId = [], missingFileSendTools = False\<rparr>
      in if sessionId v = [] then v\<lparr>sessionId := querySessionId\<rparr> else v)"

text \<open>A string or undefined is truthy when it is a non-empty string.\<close>

definition truthy :: "string option \<Rightarrow> bool" where
  "truthy a = (case a of Some (c # cs) \<Rightarrow> True | _ \<Rightarrow> False)"

text \<open>
  The session store after a run of \<open>runAgent\<close> that consumed its stream: the id is read
  before the run, and after the run it is cleared, saved, or left as it is.
\<close>

definition runAgent_sessions ::
  "string \<Rightarrow> sdk_message list \<Rightarrow> string \<Rightarrow> session_store \<Rightarrow> session_store" where
  "runAgent_sessions workspaceDir messages querySessionId store =
     (let existingSessionId = getSessionId workspaceDir store;
          v = consume_stream messages querySessionId;
          store1 = (if missingFileSendTools v \<and> truthy existingSessionId
                    then clearSessionId workspaceDir store else store)
      in if sessionId v \<noteq> [] \<and> \<not> (missingFileSendTools v \<and> truthy existingSessionId)
         then saveSessionId workspaceDir (sessionId v) store1 else store1)"

text \<open>
  The session is degraded when some system message of the stream reported none of the
  file-send tools.
\<close>

definition degraded :: "sdk_message list \<Rightarrow> bool" where
  "degraded messages =
     (\<exists>m \<in> set messages. case m of
         SystemMessage sid tools \<Rightarrow>
           (\<forall>t \<in> set FILE_SEND_TOOL_CANDIDATES. t \<notin> set (js_nullish tools []))
       | _ \<Rightarrow> False)"

section \<open>Strings and paths (node:path, POSIX)\<close>

text \<open>
  A JavaScript string is modelled as a list of characters with codes below 256; the
  character is its code unit.
\<close>

definition code :: "char \<Rightarrow> nat" where
  "code c = of_char c"

text \<open>\<open>\s\<close> and the characters \<open>trim()\<close> strips: tab, LF, VT, FF, CR, space, no-break space.\<close>

definition isSpace :: "char \<Rightarrow> bool" where
  "isSpace c = (code c \<in> {9, 10, 11, 12, 13, 32, 160})"

definition isDigit :: "char \<Rightarrow> bool" where
  "isDigit c = (48 \<le> code c \<and> code c \<le> 57)"

definition isUpper :: "char \<Rightarrow> bool" where
  "isUpper c = (65 \<le> code c \<and> code c \<le> 90)"

definition isLower :: "char \<Rightarrow> bool" where
  "isLower c = (97 \<le> code c \<and> code c \<le> 122)"

text \<open>\<open>\w\<close> is \<open>[A-Za-z0-9_]\<close>.\<close>

definition isWord :: "char \<Rightarrow> bool" where
  "isWord c = (isUpper c \<or> isLower c \<or> isDigit c \<or> c = CHR ''_'')"

text \<open>
  \<open>toLowerCase()\<close>: the letters A to Z, and the capital letters of Latin-1 (codes 192 to 222
  without the multiplication sign 215), move 32 up, which sets the bit of value 32.
\<close>

fun lowerChar :: "char \<Rightarrow> char" where
  "lowerChar (Char b0 b1 b2 b3 b4 b5 b6 b7) =
     (let c = Char b0 b1 b2 b3 b4 b5 b6 b7
      in if isUpper c \<or> (192 \<le> code c \<and> code c \<le> 222 \<and> code c \<noteq> 215)
         then Char b0 b1 b2 b3 b4 True b6 b7 else c)"

definition toLowerCase :: "string \<Rightarrow> string" where
  "toLowerCase s = map lowerChar s"

definition trim :: "string \<Rightarrow> string" where
  "trim s = rev (dropWhile isSpace (rev (dropWhile isSpace s)))"

definition startsWith :: "string \<Rightarrow> string \<Rightarrow> bool" where
  "startsWith s p = (take (length p) s = p)"

definition endsWith :: "string \<Rightarrow> string \<Rightarrow> bool" where
  "endsWith s p = (length p \<le> length s \<and> drop (length s - length p) s = p)"

text \<open>\<open>Array.from(new Set(xs))\<close>: the first occurrence of each element, in order.\<close>

fun unique_acc :: "'a list \<Rightarrow> 'a list \<Rightarrow> 'a list" where
  "unique_acc seen [] = seen"
| "unique_acc seen (x # xs) = unique_acc (if x \<in> set seen then seen else seen @ [x]) xs"

definition unique :: "'a list \<Rightarrow> 'a list" where
  "unique xs = unique_acc [] xs"

text \<open>The segments of a path: the pieces between slashes.\<close>

fun split_slash :: "string \<Rightarrow> string \<Rightarrow> string list" where
  "split_slash cur [] = [rev cur]"
| "split_slash cur (c # cs) =
     (if c = CHR ''/'' then rev cur # split_slash [] cs else split_slash (c # cur) cs)"

text \<open>
  \<open>normalizeString\<close> of node: empty segments and \<open>.\<close> are dropped, \<open>..\<close> removes the segment
  before it; at the start it is kept when \<open>allowAboveRoot\<close> and dropped otherwise. The
  segments are kept in reverse.
\<close>

fun normalize_step :: "bool \<Rightarrow> string \<Rightarrow> string list \<Rightarrow> string list" where
  "normalize_step allowAboveRoot seg acc =
     (if seg = [] \<or> seg = ''.'' then acc
      else if seg = ''..'' then
        (case acc of
           [] \<Rightarrow> (if allowAboveRoot then [''..''] else [])
         | prev # below \<Rightarrow>
             (if prev = ''..'' then (if allowAboveRoot then ''..'' # acc else acc) else below))
      else seg # acc)"

definition normalize_segments :: "bool \<Rightarrow> string \<Rightarrow> string list" where
  "normalize_segments allowAboveRoot p =
     rev (fold (normalize_step allowAboveRoot) (split_slash [] p) [])"

fun join_slash :: "string list \<Rightarrow> string" where
  "join_slash [] = []"
| "join_slash [s] = s"
| "join_slash (s # t # ss) = s @ ''/'' @ join_slash (t # ss)"

definition isAbsolute :: "string \<Rightarrow> bool" where
  "isAbsolute p = (case p of [] \<Rightarrow> False | c # cs \<Rightarrow> c = CHR ''/'')"

text \<open>
  \<open>path.resolve(...paths)\<close>: the arguments are taken from the right up to the first absolute
  one, then the working directory, which is absolute; the result is normalised.
\<close>

fun resolve_concat :: "string \<Rightarrow> string list \<Rightarrow> string" where
  "resolve_concat acc [] = acc"
| "resolve_concat acc (p # ps) =
     resolve_concat (if p = [] then acc else if isAbsolute p then p else acc @ ''/'' @ p) ps"

definition path_resolve :: "string \<Rightarrow> string list \<Rightarrow> string" where
  "path_resolve cwd paths =
     ''/'' @ join_slash (normalize_segments False (resolve_concat cwd paths))"

text \<open>\<open>path.join(...paths)\<close>: the non-empty arguments joined by slashes, then \<open>normalize\<close>.\<close>

definition path_normalize :: "string \<Rightarrow> string" where
  "path_normalize p =
     (let body = join_slash (normalize_segments (\<not> isAbsolute p) p);
          trailing = (p \<noteq> [] \<and> last p = CHR ''/'')
      in if body = [] then (if isAbsolute p then ''/'' else if trailing then ''./'' else ''.'')
         else (if isAbsolute p then ''/'' else []) @ body @ (if trailing then ''/'' else []))"

definition path_join :: "string list \<Rightarrow> string" where
  "path_join paths =
     (let joined = join_slash (filter (\<lambda>p. p \<noteq> []) paths)
      in if joined = [] then ''.'' else path_normalize joined)"

text \<open>\<open>path.basename(p)\<close>: trailing slashes are skipped, then what follows the last slash.\<close>

definition basename :: "string \<Rightarrow> string" where
  "basename p =
     (let stripped = rev (dropWhile (\<lambda>c. c = CHR ''/'') (rev p))
      in rev (takeWhile (\<lambda>c. c \<noteq> CHR ''/'') (rev stripped)))"

text \<open>
  \<open>path.dirname(p)\<close>: trailing slashes are skipped, then the path up to the last slash,
  that slash left out; a slash at the very start is not looked at, so a path with no other
  slash gives \<open>/\<close> when it is absolute and \<open>.\<close> otherwise.
\<close>

definition dirname :: "string \<Rightarrow> string" where
  "dirname p =
     (let stripped = rev (dropWhile (\<lambda>c. c = CHR ''/'') (rev p));
          upto = rev (dropWhile (\<lambda>c. c \<noteq> CHR ''/'') (rev stripped))
      in if length upto \<le> 1 then (if isAbsolute p then ''/'' else ''.'')
         else if isAbsolute p \<and> length upto = 2 then ''//''
         else butlast upto)"

text \<open>
  \<open>path.relative(from, to)\<close>: both are resolved; the common leading segments are removed,
  each remaining segment of \<open>from\<close> becomes \<open>..\<close>.
\<close>

fun strip_common :: "string list \<Rightarrow> string list \<Rightarrow> string list \<times> string list" where
  "strip_common (x # xs) (y # ys) = (if x = y then strip_common xs ys else (x # xs, y # ys))"
| "strip_common xs ys = (xs, ys)"

definition path_relative :: "string \<Rightarrow> string \<Rightarrow> string \<Rightarrow> string" where
  "path_relative cwd src dst =
     (let (ups, downs) = strip_common (normalize_segments False (resolve_concat cwd [src]))
                                      (normalize_segments False (resolve_concat cwd [dst]))
      in join_slash (map (\<lambda>s. ''..'') ups @ downs))"

section \<open>Regular expressions\<close>

text \<open>
  The patterns of the source use literals, alternatives, one character class repeated
  (\<open>+\<close> and \<open>*\<close>, greedy) and the word boundary \<open>\b\<close>.
\<close>

datatype rx =
    Lit string
  | Plus "char \<Rightarrow> bool"
  | Star "char \<Rightarrow> bool"
  | WordB
  | Seq rx rx
  | Alt rx rx

text \<open>
  Case folding of the flag \<open>i\<close>: the letters a to z are read as A to Z. The literals of the
  patterns are ASCII, and a character above 127 never folds to an ASCII one.
\<close>

fun canonicalize :: "char \<Rightarrow> char" where
  "canonicalize (Char b0 b1 b2 b3 b4 b5 b6 b7) =
     (let c = Char b0 b1 b2 b3 b4 b5 b6 b7
      in if isLower c then Char b0 b1 b2 b3 b4 False b6 b7 else c)"

definition fold_case :: "bool \<Rightarrow> string \<Rightarrow> string" where
  "fold_case ignoreCase s = (if ignoreCase then map canonicalize s else s)"

definition at_boundary :: "char option \<Rightarrow> string \<Rightarrow> bool" where
  "at_boundary prev s =
     ((case prev of None \<Rightarrow> False | Some c \<Rightarrow> isWord c)
        \<noteq> (case s of [] \<Rightarrow> False | c # cs \<Rightarrow> isWord c))"

definition advance :: "nat \<Rightarrow> char option \<Rightarrow> string \<Rightarrow> char option \<times> string" where
  "advance n prev s = (if n = 0 then prev else Some (s ! (n - 1)), drop n s)"

text \<open>
  The ways a pattern matches at the start of \<open>s\<close>, after the character \<open>prev\<close>, in the order
  a backtracking matcher tries them: each is the last character consumed and the rest of
  the text.
\<close>

fun rx_ends :: "bool \<Rightarrow> rx \<Rightarrow> char option \<Rightarrow> string \<Rightarrow> (char option \<times> string) list" where
  "rx_ends ic (Lit l) prev s =
     (if length l \<le> length s \<and> fold_case ic (take (length l) s) = fold_case ic l
      then [advance (length l) prev s] else [])"
| "rx_ends ic (Plus cls) prev s =
     map (\<lambda>n. advance n prev s) (rev [1 ..< Suc (length (takeWhile cls s))])"
| "rx_ends ic (Star cls) prev s =
     map (\<lambda>n. advance n prev s) (rev [0 ..< Suc (length (takeWhile cls s))])"
| "rx_ends ic WordB prev s = (if at_boundary prev s then [(prev, s)] else [])"
| "rx_ends ic (Seq r1 r2) prev s =
     concat (map (\<lambda>e. rx_ends ic r2 (fst e) (snd e)) (rx_ends ic r1 prev s))"
| "rx_ends ic (Alt r1 r2) prev s = rx_ends ic r1 prev s @ rx_ends ic r2 prev s"

text \<open>\<open>regex.test(s)\<close>: the pattern matches at some position.\<close>

fun rx_search :: "bool \<Rightarrow> rx \<Rightarrow> char option \<Rightarrow> string \<Rightarrow> bool" where
  "rx_search ic r prev [] = (rx_ends ic r prev [] \<noteq> [])"
| "rx_search ic r prev (c # cs) = (rx_ends ic r prev (c # cs) \<noteq> [] \<or> rx_search ic r (Some c) cs)"

definition rx_test :: "bool \<Rightarrow> rx \<Rightarrow> string \<Rightarrow> bool" where
  "rx_test ic r s = rx_search ic r None s"

text \<open>
  \<open>s.match(regex)\<close> with the flag \<open>g\<close>: the matches from left to right, each the first way the
  pattern matches at the leftmost position that has one, the search going on where the
  match ended (one character further after an empty match). \<open>skip\<close> counts the characters
  still inside the last match.
\<close>

fun rx_scan :: "bool \<Rightarrow> rx \<Rightarrow> nat \<Rightarrow> char option \<Rightarrow> string \<Rightarrow> string list" where
  "rx_scan ic r skip prev [] = (if skip = 0 \<and> rx_ends ic r prev [] \<noteq> [] then [[]] else [])"
| "rx_scan ic r skip prev (c # cs) =
     (if 0 < skip then rx_scan ic r (skip - 1) (Some c) cs
      else (case rx_ends ic r prev (c # cs) of
              [] \<Rightarrow> rx_scan ic r 0 (Some c) cs
            | e # es \<Rightarrow>
                (let n = length (c # cs) - length (snd e)
                 in take n (c # cs) # rx_scan ic r (n - 1) (Some c) cs)))"

definition rx_match_all :: "bool \<Rightarrow> rx \<Rightarrow> string \<Rightarrow> string list" where
  "rx_match_all ic r s = rx_scan ic r 0 None s"

section \<open>Reading the user's message (the core agent execution, in agent/upload-tool.ts)\<close>

definition upload_verbs :: rx where
  "upload_verbs = Alt (Lit ''attach'') (Alt (Lit ''upload'') (Alt (Lit ''send'') (Lit ''share'')))"

text \<open>\<^verbatim>\<open>/\b(attach|upload|send|share)\b/i.test(userMessage)\<close>\<close>

definition hasUploadIntent :: "string \<Rightarrow> bool" where
  "hasUploadIntent userMessage = rx_test True (Seq WordB (Seq upload_verbs WordB)) userMessage"

text \<open>
  The characters of the two classes of the file-name pattern
  \<^verbatim>\<open>/[^\s"'`<>]+\.[A-Za-z0-9_-]+/g\<close>.
\<close>

definition isNameChar :: "char \<Rightarrow> bool" where
  "isNameChar c = (\<not> isSpace c \<and> c \<notin> {CHR 0x22, CHR 0x27, CHR 0x60, CHR ''<'', CHR ''>''})"

definition isExtChar :: "char \<Rightarrow> bool" where
  "isExtChar c = (isUpper c \<or> isLower c \<or> isDigit c \<or> c = CHR ''_'' \<or> c = CHR ''-'')"

definition file_name_pattern :: rx where
  "file_name_pattern = Seq (Plus isNameChar) (Seq (Lit ''.'') (Plus isExtChar))"

text \<open>
  \<^verbatim>\<open>value.trim().replace(/^[([{"'`]+|[)\]}"'`,.;:!?]+$/g, "")\<close>: the run of opening characters
  at the start goes, and the run of closing characters at the end of what is left.
\<close>

definition isOpening :: "char \<Rightarrow> bool" where
  "isOpening c = (c \<in> {CHR ''('', CHR ''['', CHR ''{'', CHR 0x22, CHR 0x27, CHR 0x60})"

definition isClosing :: "char \<Rightarrow> bool" where
  "isClosing c = (c \<in> {CHR '')'', CHR '']'', CHR ''}'', CHR 0x22, CHR 0x27, CHR 0x60,
                        CHR '','', CHR ''.'', CHR '';'', CHR '':'', CHR ''!'', CHR ''?''})"

definition strip_punctuation :: "string \<Rightarrow> string" where
  "strip_punctuation v = rev (dropWhile isClosing (rev (dropWhile isOpening (trim v))))"

definition inferRequestedFileNames :: "string \<Rightarrow> string list" where
  "inferRequestedFileNames userMessage =
     (let matches = rx_match_all False file_name_pattern userMessage;
          normalized = map basename (filter (\<lambda>v. v \<noteq> []) (map strip_punctuation matches))
      in unique normalized)"

definition shouldAutoSelectLatestUpload :: "string \<Rightarrow> bool" where
  "shouldAutoSelectLatestUpload userMessage =
     (if \<not> hasUploadIntent userMessage then False
      else if 0 < length (inferRequestedFileNames userMessage) then False
      else (let lower = toLowerCase userMessage in
        if rx_test False (Seq WordB (Seq upload_verbs (Seq (Plus isSpace)
              (Seq (Alt (Lit ''this'') (Alt (Lit ''that'') (Lit ''it''))) WordB)))) lower then True
        else if rx_test False (Seq WordB (Seq (Alt (Lit ''this'') (Alt (Lit ''that'') (Lit ''the'')))
              (Seq (Plus isSpace) (Seq (Lit ''file'') WordB)))) lower then True
        else if rx_test False (Seq WordB (Seq upload_verbs (Seq WordB
              (Seq (Star (\<lambda>c. isSpace c \<or> isWord c))
                (Seq (Alt (Lit ''file'') (Lit ''attachment'')) WordB))))) lower then True
        else False))"

definition shouldAutoSelectAllUploads :: "string \<Rightarrow> bool" where
  "shouldAutoSelectAllUploads userMessage =
     (if \<not> hasUploadIntent userMessage then False
      else if 0 < length (inferRequestedFileNames userMessage) then False
      else (let lower = toLowerCase userMessage in
        if rx_test False (Seq WordB (Seq (Alt (Lit ''files'') (Lit ''attachments'')) WordB)) lower
          then True
        else if rx_test False (Seq WordB (Seq (Lit ''both'') WordB)) lower then True
        else False))"

section \<open>The file system\<close>

text \<open>
  What the code observes of the disk: the working directory of the process, which is an
  absolute path; \<open>existsSync\<close>; the modification time that \<open>statSync\<close> reports, with \<open>None\<close>
  where \<open>statSync\<close> throws; and the text that \<open>readFile\<close> gives, with \<open>None\<close> where it
  rejects. A modification time is a JavaScript number, of which only the order is used.
\<close>

record filesystem =
  cwd :: string
  existsSync :: "string \<Rightarrow> bool"
  mtimeMs :: "string \<Rightarrow> rat option"
  readFile :: "string \<Rightarrow> string option"

text \<open>
  \<open>mkdir(dir, {recursive: true})\<close> and \<open>writeFile(path, text)\<close> are taken to succeed: a disk
  that refuses a write is outside this model. Afterwards the directory and the directories
  above it exist, the file exists, holds the text and has the time of the write.
\<close>

fun path_prefixes :: "string \<Rightarrow> string list \<Rightarrow> string list" where
  "path_prefixes parent [] = []"
| "path_prefixes parent (seg # segs) =
     (parent @ ''/'' @ seg) # path_prefixes (parent @ ''/'' @ seg) segs"

definition mkdir_recursive :: "rat \<Rightarrow> string \<Rightarrow> filesystem \<Rightarrow> filesystem" where
  "mkdir_recursive now dir fs =
     (let made = filter (\<lambda>p. \<not> existsSync fs p)
                   (path_prefixes [] (normalize_segments False (resolve_concat (cwd fs) [dir])))
      in fs\<lparr>existsSync := (\<lambda>p. p \<in> set made \<or> existsSync fs p),
            mtimeMs := (\<lambda>p. if p \<in> set made then Some now else mtimeMs fs p)\<rparr>)"

definition writeFile :: "rat \<Rightarrow> string \<Rightarrow> string \<Rightarrow> filesystem \<Rightarrow> filesystem" where
  "writeFile now path text fs =
     (let p = path_resolve (cwd fs) [path]
      in fs\<lparr>existsSync := (existsSync fs)(p := True),
            mtimeMs := (mtimeMs fs)(p \<mapsto> now),
            readFile := (readFile fs)(p \<mapsto> text)\<rparr>)"

section \<open>The tool-output queue (the core agent execution, in agent/upload-tool.ts)\<close>

text \<open>A value that \<open>JSON.parse\<close> returns.\<close>

datatype json =
    JNull
  | JBool bool
  | JNumber rat
  | JString string
  | JArray "json list"
  | JObject "(string \<times> json) list"

record ToolQueueSnapshot =
  uploads :: "string list"
  messages :: "string list"

definition TOOL_QUEUE_RELATIVE_PATH :: string where
  "TOOL_QUEUE_RELATIVE_PATH = path_join [''.papert'', ''.papert-claw-runtime'', ''tool-queue.json'']"

definition getWorkspaceToolQueuePath :: "string \<Rightarrow> string" where
  "getWorkspaceToolQueuePath workspaceDir = path_join [workspaceDir, TOOL_QUEUE_RELATIVE_PATH]"

text \<open>\<^verbatim>\<open>JSON.stringify({ uploads: [], messages: [] })\<close>\<close>

definition EMPTY_QUEUE_TEXT :: string where
  \<open>EMPTY_QUEUE_TEXT = ''{"uploads":[],"messages":[]}''\<close>

definition resetWorkspaceToolQueue :: "rat \<Rightarrow> string \<Rightarrow> filesystem \<Rightarrow> filesystem" where
  "resetWorkspaceToolQueue now workspaceDir fs =
     (let queuePath = getWorkspaceToolQueuePath workspaceDir
      in writeFile now queuePath EMPTY_QUEUE_TEXT (mkdir_recursive now (dirname queuePath) fs))"

text \<open>
  A property of a parsed object, the later of two equal keys winning; the strings among the
  items of an array.
\<close>

definition property :: "json \<Rightarrow> string \<Rightarrow> json option" where
  "property v k = (case v of JObject kvs \<Rightarrow> map_of (rev kvs) k | _ \<Rightarrow> None)"

fun strings_of :: "json list \<Rightarrow> string list" where
  "strings_of [] = []"
| "strings_of (JString s # items) = s # strings_of items"
| "strings_of (v # items) = strings_of items"

text \<open>\<open>!value || typeof value !== "object"\<close> lets objects and arrays through.\<close>

definition is_object :: "json \<Rightarrow> bool" where
  "is_object v = (case v of JObject kvs \<Rightarrow> True | JArray items \<Rightarrow> True | _ \<Rightarrow> False)"

definition normalizeQueueSnapshot :: "filesystem \<Rightarrow> json \<Rightarrow> string \<Rightarrow> ToolQueueSnapshot" where
  "normalizeQueueSnapshot fs v workspaceDir =
     (if \<not> is_object v then \<lparr>uploads = [], messages = []\<rparr>
      else
        (let workspaceRoot = path_resolve (cwd fs) [workspaceDir];
             ups = (case property v ''uploads'' of
                      Some (JArray items) \<Rightarrow>
                        filter (\<lambda>item. startsWith item workspaceRoot \<and> existsSync fs item)
                          (map (\<lambda>item. path_resolve (cwd fs) [workspaceRoot, item])
                             (strings_of items))
                    | _ \<Rightarrow> []);
             msgs = (case property v ''messages'' of
                       Some (JArray items) \<Rightarrow>
                         filter (\<lambda>item. item \<noteq> []) (map trim (strings_of items))
                     | _ \<Rightarrow> [])
         in \<lparr>uploads = unique ups, messages = unique msgs\<rparr>))"

text \<open>
  \<open>drainWorkspaceToolQueue\<close>. \<open>JSON.parse\<close> is a parameter: it gives \<open>None\<close> where it throws.
  A file that cannot be read and a text that does not parse both end in the \<open>catch\<close> block;
  the \<open>finally\<close> block resets the queue whatever happened.
\<close>

definition drainWorkspaceToolQueue ::
  "(string \<Rightarrow> json option) \<Rightarrow> rat \<Rightarrow> string \<Rightarrow> filesystem \<Rightarrow> ToolQueueSnapshot \<times> filesystem"
where
  "drainWorkspaceToolQueue JSON_parse now workspaceDir fs =
     (let queuePath = getWorkspaceToolQueuePath workspaceDir;
          snapshot =
            (case readFile fs (path_resolve (cwd fs) [queuePath]) of
               None \<Rightarrow> \<lparr>uploads = [], messages = []\<rparr>
             | Some raw \<Rightarrow>
                 (case JSON_parse raw of
                    None \<Rightarrow> \<lparr>uploads = [], messages = []\<rparr>
                  | Some v \<Rightarrow> normalizeQueueSnapshot fs v workspaceDir))
      in (snapshot, resetWorkspaceToolQueue now workspaceDir fs))"

section \<open>UploadCollector and the SendFileToChat handler (agent/upload-tool.ts)\<close>

record UploadCollector =
  pending :: "string list"
  pendingMessages :: "string list"

definition collect :: "string \<Rightarrow> UploadCollector \<Rightarrow> UploadCollector" where
  "collect filePath collector = collector\<lparr>pending := pending collector @ [filePath]\<rparr>"

text \<open>
  \<open>queueFile\<close> inside \<open>createUploadMcpServer(collector, workspaceDir)\<close>: the answer of the
  tool and the collector afterwards.
\<close>

definition queueFile ::
  "filesystem \<Rightarrow> string \<Rightarrow> string \<Rightarrow> UploadCollector \<Rightarrow> string \<times> UploadCollector" where
  "queueFile fs workspaceDir filePath collector =
     (let absWorkspace = path_resolve (cwd fs) [workspaceDir];
          absPath = path_resolve (cwd fs) [filePath]
      in if \<not> startsWith absPath absWorkspace
           then (''Error: file must be within your workspace '' @ absWorkspace, collector)
         else if \<not> existsSync fs absPath
           then (''Error: file not found at '' @ absPath, collector)
         else (''File queued for upload: '' @ absPath, collect absPath collector))"

text \<open>
  A path is inside the workspace when it is the root or lies below it, as
  \<open>enforceUploadPolicy\<close> and \<open>normalizeWorkspacePath\<close> of the same sources test it.
\<close>

definition inside_workspace :: "string \<Rightarrow> string \<Rightarrow> bool" where
  "inside_workspace workspaceRoot absPath =
     (startsWith absPath (workspaceRoot @ ''/'') \<or> absPath = workspaceRoot)"

section \<open>The upload-selection policy (the core agent execution, in agent/upload-tool.ts)\<close>

definition BLOCKED_UPLOAD_PREFIXES :: "string list" where
  "BLOCKED_UPLOAD_PREFIXES = [''.papert/tools'', ''.papert/.papert-claw-runtime'']"

text \<open>\<^verbatim>\<open>rel.replaceAll("\\", "/")\<close>\<close>

definition to_posix :: "string \<Rightarrow> string" where
  "to_posix rel = map (\<lambda>c. if c = CHR 0x5C then CHR ''/'' else c) rel"

definition getAutoSelectionPriority :: "filesystem \<Rightarrow> string \<Rightarrow> string \<Rightarrow> nat" where
  "getAutoSelectionPriority fs absPath workspaceRoot =
     (let rel = to_posix (path_relative (cwd fs) workspaceRoot absPath)
      in if startsWith rel ''attachments/'' then 3
         else if toLowerCase (basename absPath) = ''session.json'' then 1
         else 2)"

definition isAttachmentCandidate :: "filesystem \<Rightarrow> string \<Rightarrow> string \<Rightarrow> bool" where
  "isAttachmentCandidate fs absPath workspaceRoot =
     startsWith (to_posix (path_relative (cwd fs) workspaceRoot absPath)) ''attachments/''"

definition isUploadPathBlocked :: "filesystem \<Rightarrow> string \<Rightarrow> string \<Rightarrow> bool" where
  "isUploadPathBlocked fs absPath workspaceDir =
     (let rel = path_relative (cwd fs) workspaceDir absPath
      in if rel = [] \<or> rel = ''.'' \<or> startsWith rel ''..'' then True
         else (let posixRel = to_posix rel
               in list_ex (\<lambda>prefix. posixRel = prefix \<or> startsWith posixRel (prefix @ ''/''))
                    BLOCKED_UPLOAD_PREFIXES))"

text \<open>\<open>accepted.add(path)\<close> on a set that keeps the order of insertion.\<close>

definition set_add :: "'a \<Rightarrow> 'a list \<Rightarrow> 'a list" where
  "set_add x xs = (if x \<in> set xs then xs else xs @ [x])"

text \<open>
  One turn of the loop over \<open>uploadPaths\<close>; the state is \<open>accepted\<close> and \<open>autoCandidates\<close>.
  \<open>requested\<close> are the lower-cased requested names and \<open>auto\<close> is
  \<open>autoSelectLatest || autoSelectAll\<close>. The list \<open>dropped\<close> is only logged and is left out.
\<close>

definition policy_step ::
  "filesystem \<Rightarrow> string \<Rightarrow> string list \<Rightarrow> bool \<Rightarrow> string \<Rightarrow>
   string list \<times> string list \<Rightarrow> string list \<times> string list" where
  "policy_step fs workspaceRoot requested auto candidate st =
     (let absPath = path_resolve (cwd fs) [candidate]
      in if \<not> startsWith absPath (workspaceRoot @ ''/'') \<and> absPath \<noteq> workspaceRoot then st
         else if \<not> existsSync fs absPath then st
         else if isUploadPathBlocked fs absPath workspaceRoot then st
         else if length (unique requested) = 0 then
           (if auto then (fst st, snd st @ [absPath]) else st)
         else
           (let lowerPath = toLowerCase absPath;
                lowerBase = basename lowerPath;
                matchedRequestedName =
                  (lowerBase \<in> set requested \<or> list_ex (\<lambda>name. endsWith lowerPath name) requested)
            in if \<not> matchedRequestedName then st
               else (set_add absPath (fst st), snd st)))"

text \<open>
  One turn of the loop that selects the latest candidate; the state is \<open>selected\<close>,
  \<open>selectedMtime\<close> and \<open>selectedPriority\<close>, where \<open>None\<close> is \<open>Number.NEGATIVE_INFINITY\<close>.
  Paths are compared as strings, character code by character code.
\<close>

definition latest_step ::
  "filesystem \<Rightarrow> string \<Rightarrow> string \<Rightarrow> string \<times> rat option \<times> nat option \<Rightarrow>
   string \<times> rat option \<times> nat option" where
  "latest_step fs workspaceRoot path st =
     (let selected = fst st; selectedMtime = fst (snd st); selectedPriority = snd (snd st);
          mtime = mtimeMs fs path;
          priority = Some (getAutoSelectionPriority fs path workspaceRoot)
      in if priority > selectedPriority \<or>
            (priority = selectedPriority \<and>
               (mtime > selectedMtime \<or> (mtime = selectedMtime \<and> path > selected)))
         then (path, mtime, priority)
         else st)"

definition enforceUploadPolicy :: "filesystem \<Rightarrow> string list \<Rightarrow> string \<Rightarrow> string \<Rightarrow> string list" where
  "enforceUploadPolicy fs uploadPaths userMessage workspaceDir =
     (let workspaceRoot = path_resolve (cwd fs) [workspaceDir];
          requested = map toLowerCase (inferRequestedFileNames userMessage);
          autoSelectLatest = (length (unique requested) = 0 \<and> shouldAutoSelectLatestUpload userMessage);
          autoSelectAll = (length (unique requested) = 0 \<and> shouldAutoSelectAllUploads userMessage);
          st = fold (policy_step fs workspaceRoot requested (autoSelectLatest \<or> autoSelectAll))
                 uploadPaths ([], []);
          accepted = fst st;
          autoCandidates = snd st;
          accepted1 =
            (if autoSelectAll \<and> 0 < length autoCandidates then
               (let attachmentCandidates =
                      filter (\<lambda>path. isAttachmentCandidate fs path workspaceRoot) autoCandidates;
                    chosen = (if 0 < length attachmentCandidates then attachmentCandidates
                              else filter (\<lambda>path. toLowerCase (basename path) \<noteq> ''session.json'')
                                     autoCandidates);
                    selected = (if 0 < length chosen then chosen else autoCandidates)
                in fold set_add selected accepted)
             else accepted);
          accepted2 =
            (if \<not> autoSelectAll \<and> autoSelectLatest \<and> 0 < length autoCandidates then
               (let sel = fold (latest_step fs workspaceRoot) autoCandidates
                            (hd autoCandidates, None, None)
                in set_add (fst sel) accepted1)
             else accepted1)
      in accepted2)"

text \<open>
  A candidate that the policy keeps in its list: inside the workspace, on disk and not under
  a blocked prefix. The candidates are resolved before they are tested.
\<close>

definition valid_candidate :: "filesystem \<Rightarrow> string \<Rightarrow> string \<Rightarrow> bool" where
  "valid_candidate fs workspaceRoot absPath =
     (inside_workspace workspaceRoot absPath \<and> existsSync fs absPath
        \<and> \<not> isUploadPathBlocked fs absPath workspaceRoot)"

definition valid_candidates :: "filesystem \<Rightarrow> string list \<Rightarrow> string \<Rightarrow> string list" where
  "valid_candidates fs uploadPaths workspaceDir =
     filter (valid_candidate fs (path_resolve (cwd fs) [workspaceDir]))
       (map (\<lambda>candidate. path_resolve (cwd fs) [candidate]) uploadPaths)"

section \<open>The upload-selection policy, as described\<close>

text \<open>
  A resolved candidate matches a requested name as the code tests it: its lower-cased base
  name is one of the lower-cased requested names, or its lower-cased path ends with one.
\<close>

definition matches_requested_name :: "string \<Rightarrow> string \<Rightarrow> bool" where
  "matches_requested_name userMessage absPath =
     (let requested = map toLowerCase (inferRequestedFileNames userMessage);
          lowerPath = toLowerCase absPath
      in basename lowerPath \<in> set requested \<or> list_ex (\<lambda>name. endsWith lowerPath name) requested)"

text \<open>
  The spec's words for the explicit-name case: "keep only candidates whose base name matches
  one of those names", read without regard to case.
\<close>

definition spec_explicit_selection ::
  "filesystem \<Rightarrow> string list \<Rightarrow> string \<Rightarrow> string \<Rightarrow> string list" where
  "spec_explicit_selection fs uploadPaths userMessage workspaceDir =
     unique (filter (\<lambda>absPath. toLowerCase (basename absPath)
                                \<in> set (map toLowerCase (inferRequestedFileNames userMessage)))
               (valid_candidates fs uploadPaths workspaceDir))"

text \<open>
  The spec's words for the send-everything case: "accept every remaining candidate,
  preferring those under an attachments subdirectory over a default session-state file if
  both are present".
\<close>

definition spec_send_all_selection ::
  "filesystem \<Rightarrow> string list \<Rightarrow> string \<Rightarrow> string list" where
  "spec_send_all_selection fs uploadPaths workspaceDir =
     (let workspaceRoot = path_resolve (cwd fs) [workspaceDir];
          candidates = valid_candidates fs uploadPaths workspaceDir;
          is_session = (\<lambda>path. toLowerCase (basename path) = ''session.json'')
      in unique (if list_ex (\<lambda>path. isAttachmentCandidate fs path workspaceRoot) candidates
                    \<and> list_ex is_session candidates
                 then filter (\<lambda>path. \<not> is_session path) candidates
                 else candidates))"

text \<open>
  What the code does in the send-everything case: the candidates under \<open>attachments/\<close> if
  there are any, else the candidates other than \<open>session.json\<close> if there are any, else all.
\<close>

definition send_all_selection ::
  "filesystem \<Rightarrow> string list \<Rightarrow> string \<Rightarrow> string list" where
  "send_all_selection fs uploadPaths workspaceDir =
     (let workspaceRoot = path_resolve (cwd fs) [workspaceDir];
          candidates = valid_candidates fs uploadPaths workspaceDir;
          attachments = filter (\<lambda>path. isAttachmentCandidate fs path workspaceRoot) candidates;
          others = filter (\<lambda>path. toLowerCase (basename path) \<noteq> ''session.json'') candidates
      in unique (if attachments \<noteq> [] then attachments
                 else if others \<noteq> [] then others else candidates))"

text \<open>
  The order of the send-latest case: \<open>p\<close> outranks \<open>q\<close> when its tier is higher, or the tiers
  are equal and it was modified later, or those are equal too and its path is the greater
  string. A file whose modification time cannot be read counts as older than any other.
\<close>

definition outranks :: "filesystem \<Rightarrow> string \<Rightarrow> string \<Rightarrow> string \<Rightarrow> bool" where
  "outranks fs workspaceRoot p q =
     (getAutoSelectionPriority fs p workspaceRoot > getAutoSelectionPriority fs q workspaceRoot
      \<or> (getAutoSelectionPriority fs p workspaceRoot = getAutoSelectionPriority fs q workspaceRoot
          \<and> (mtimeMs fs p > mtimeMs fs q \<or> (mtimeMs fs p = mtimeMs fs q \<and> p > q))))"

text \<open>A workspace \<open>/ws\<close> for the examples of the spec.\<close>

definition example_fs :: filesystem where
  "example_fs =
     \<lparr>cwd = ''/srv/app'',
      existsSync = (\<lambda>p. p \<in> set [''/ws'', ''/ws/a.pdf'', ''/ws/b.csv'', ''/ws/ab.csv'',
                       ''/ws/report.pdf'', ''/ws/session.json'', ''/ws/attachments'',
                       ''/ws/attachments/x.png'', ''/ws/attachments/y.png'']),
      mtimeMs = (\<lambda>p. if p = ''/ws/attachments/x.png'' then Some 2000
                     else if p = ''/ws/attachments/y.png'' then Some 1000 else Some 500),
      readFile = (\<lambda>p. None)\<rparr>"

text \<open>
  The three values the selection loop keeps for a candidate, and the comparison the loop
  makes between the candidate at hand and the values kept so far.
\<close>

definition candidate_key ::
  "filesystem \<Rightarrow> string \<Rightarrow> string \<Rightarrow> string \<times> rat option \<times> nat option" where
  "candidate_key fs workspaceRoot path =
     (path, mtimeMs fs path, Some (getAutoSelectionPriority fs path workspaceRoot))"

definition key_better ::
  "string \<times> rat option \<times> nat option \<Rightarrow> string \<times> rat option \<times> nat option \<Rightarrow> bool" where
  "key_better a b =
     (snd (snd a) > snd (snd b)
      \<or> (snd (snd a) = snd (snd b)
          \<and> (fst (snd a) > fst (snd b) \<or> (fst (snd a) = fst (snd b) \<and> fst a > fst b))))"

section \<open>Properties of SchedulerRoutes\<close>

lemma routes_run_snoc: "routes_run (calls @ [c]) s = routes_apply c (routes_run calls s)"
  by (simp add: routes_run_def)

lemma routes_run_nil: "routes_run [] s = s"
  by (simp add: routes_run_def)

lemma unbound_before_bind:
  "BindJob j \<notin> set calls \<Longrightarrow> routesByJobId (routes_run calls newSchedulerRoutes) j = None"
proof (induction calls rule: rev_induct)
  case Nil
  show ?case by (simp add: routes_run_nil newSchedulerRoutes_def)
next
  case (snoc c calls)
  then have ih: "routesByJobId (routes_run calls newSchedulerRoutes) j = None"
    and c: "c \<noteq> BindJob j" by auto
  show ?case
  proof (cases c)
    case (SetLatestRoute r)
    with ih show ?thesis by (simp add: routes_run_snoc setLatestRoute_def)
  next
    case (BindJob k)
    with c have "k \<noteq> j" by simp
    with ih BindJob show ?thesis
      by (simp add: routes_run_snoc bindJob_def split: option.splits)
  next
    case (RemoveJob k)
    with ih show ?thesis by (simp add: routes_run_snoc removeJob_def)
  qed
qed

lemma set_routes_keep_binding:
  "routesByJobId s j = Some r \<Longrightarrow>
   routesByJobId (routes_run (map SetLatestRoute rs) s) j = Some r"
  by (induction rs rule: rev_induct) (simp_all add: routes_run_nil routes_run_snoc setLatestRoute_def)

text \<open>
  C3. On any \<open>SchedulerRoutes\<close> instance \<open>s\<close> and for any job id \<open>j\<close>:
  after \<open>setLatestRoute(R1)\<close>, \<open>bindJob(j)\<close>, \<open>setLatestRoute(R2)\<close>, \<open>resolve(j)\<close> returns \<open>R1\<close>,
  and it still does after any number of further \<open>setLatestRoute\<close> calls;
  on an instance built from \<open>new SchedulerRoutes()\<close> by calls among which there is no
  \<open>bindJob(j)\<close>, \<open>resolve(j)\<close> returns the latest route, which is nothing on the new instance;
  after \<open>removeJob(j)\<close>, \<open>resolve(j)\<close> returns the latest route.
\<close>

theorem C3_job_routing:
  "resolve j (setLatestRoute R2 (bindJob j (setLatestRoute R1 s))) = Some R1
   \<and> resolve j (routes_run (map SetLatestRoute rs) (bindJob j (setLatestRoute R1 s))) = Some R1
   \<and> (BindJob j \<notin> set calls \<longrightarrow>
        resolve j (routes_run calls newSchedulerRoutes)
          = latestRoute (routes_run calls newSchedulerRoutes))
   \<and> resolve j newSchedulerRoutes = None
   \<and> resolve j (removeJob j s) = latestRoute (removeJob j s)
   \<and> latestRoute (removeJob j s) = latestRoute s"
proof (intro conjI impI)
  show "resolve j (setLatestRoute R2 (bindJob j (setLatestRoute R1 s))) = Some R1"
    by (simp add: resolve_def setLatestRoute_def bindJob_def)
next
  have "routesByJobId (bindJob j (setLatestRoute R1 s)) j = Some R1"
    by (simp add: setLatestRoute_def bindJob_def)
  then have "routesByJobId (routes_run (map SetLatestRoute rs) (bindJob j (setLatestRoute R1 s))) j
               = Some R1"
    by (rule set_routes_keep_binding)
  then show "resolve j (routes_run (map SetLatestRoute rs) (bindJob j (setLatestRoute R1 s)))
               = Some R1"
    by (simp add: resolve_def)
next
  assume "BindJob j \<notin> set calls"
  then have "routesByJobId (routes_run calls newSchedulerRoutes) j = None"
    by (rule unbound_before_bind)
  then show "resolve j (routes_run calls newSchedulerRoutes)
               = latestRoute (routes_run calls newSchedulerRoutes)"
    by (simp add: resolve_def)
next
  show "resolve j newSchedulerRoutes = None"
    by (simp add: resolve_def newSchedulerRoutes_def)
next
  show "resolve j (removeJob j s) = latestRoute (removeJob j s)"
    by (simp add: resolve_def removeJob_def)
next
  show "latestRoute (removeJob j s) = latestRoute s"
    by (simp add: removeJob_def)
qed

theorem C3_job_routing_witness:
  "BindJob ''job-1'' \<notin> set [SetLatestRoute \<lparr>channelId = ''C1'', threadTs = None, mode = Dm\<rparr>,
                               BindJob ''job-2'', RemoveJob ''job-1'']
   \<and> resolve ''job-1''
         (routes_run [SetLatestRoute \<lparr>channelId = ''C1'', threadTs = None, mode = Dm\<rparr>,
                      BindJob ''job-2'', RemoveJob ''job-1''] newSchedulerRoutes)
       = Some \<lparr>channelId = ''C1'', threadTs = None, mode = Dm\<rparr>"
proof -
  let ?calls = "[SetLatestRoute \<lparr>channelId = ''C1'', threadTs = None, mode = Dm\<rparr>,
                 BindJob ''job-2'', RemoveJob ''job-1'']"
  have h: "BindJob ''job-1'' \<notin> set ?calls" by simp
  have "latestRoute (routes_run ?calls newSchedulerRoutes)
          = Some \<lparr>channelId = ''C1'', threadTs = None, mode = Dm\<rparr>"
    by (simp add: routes_run_def newSchedulerRoutes_def setLatestRoute_def bindJob_def
        removeJob_def)
  with h C3_job_routing [of "''job-1''" _ _ _ _ ?calls] show ?thesis by simp
qed

section \<open>Properties of ChannelQueue\<close>

lemma queue_run_snoc: "queue_run (evs @ [e]) q = queue_step e (queue_run evs q)"
  by (simp add: queue_run_def)

lemma queue_run_nil: "queue_run [] q = q"
  by (simp add: queue_run_def)

lemma enqueued_append: "enqueued (evs @ evs') = enqueued evs @ enqueued evs'"
  by (induction evs rule: enqueued.induct) simp_all

lemma started_append: "started (obs @ obs') = started obs @ started obs'"
  by (induction obs rule: started.induct) simp_all

lemma finished_append: "finished (obs @ obs') = finished obs @ finished obs'"
  by (induction obs rule: finished.induct) simp_all

lemma serial_start:
  "serial obs \<Longrightarrow> open_item obs = None \<Longrightarrow>
   serial (obs @ [Start w]) \<and> open_item (obs @ [Start w]) = Some w"
  by (induction obs rule: serial.induct) simp_all

lemma serial_finish:
  "serial obs \<Longrightarrow> open_item obs = Some w \<Longrightarrow>
   serial (obs @ [Finish w out]) \<and> open_item (obs @ [Finish w out]) = None"
  by (induction obs rule: serial.induct) simp_all

lemma queue_inv_new: "queue_inv [] newChannelQueue"
  by (simp add: queue_inv_def newChannelQueue_def)

lemma queue_inv_enqueue:
  assumes "queue_inv ws q"
  shows "queue_inv (ws @ [w]) (enqueue w q)"
proof (cases "processing q")
  case True
  with assms show ?thesis
    by (simp add: queue_inv_def enqueue_def processNext_def)
next
  case False
  with assms have idle: "inflight q = []" "queue q = []" "open_item (observed q) = None"
    "serial (observed q)"
    by (auto simp: queue_inv_def)
  from serial_start [OF idle(4) idle(3), of w] idle False assms show ?thesis
    by (simp add: queue_inv_def enqueue_def processNext_def started_append finished_append)
qed

lemma queue_inv_resume:
  assumes "queue_inv ws q"
  shows "queue_inv ws (resume k out q)"
proof (cases "k < length (inflight q)")
  case False
  with assms show ?thesis by (simp add: resume_def)
next
  case True
  with assms obtain w where w: "inflight q = [w]" and k: "k = 0"
    by (cases "inflight q") (auto simp: queue_inv_def)
  from assms w have p: "open_item (observed q) = Some w" and s: "serial (observed q)"
    by (auto simp: queue_inv_def)
  note f = serial_finish [OF s p, of out]
  show ?thesis
  proof (cases "queue q")
    case Nil
    with assms w k f show ?thesis
      by (cases out)
        (simp_all add: queue_inv_def resume_def processNext_def started_append finished_append)
  next
    case (Cons x xs)
    from f have "serial (observed q @ [Finish w out])" "open_item (observed q @ [Finish w out]) = None"
      by simp_all
    from serial_start [OF this, of x] Cons assms w k show ?thesis
      by (cases out)
        (simp_all add: queue_inv_def resume_def processNext_def started_append finished_append)
  qed
qed

lemma queue_inv_run: "queue_inv (enqueued evs) (queue_run evs newChannelQueue)"
proof (induction evs rule: rev_induct)
  case Nil
  show ?case by (simp add: queue_run_nil queue_inv_new)
next
  case (snoc e evs)
  show ?case
  proof (cases e)
    case (Enqueue w)
    with queue_inv_enqueue [OF snoc, of w] show ?thesis
      by (simp add: queue_run_snoc enqueued_append)
  next
    case (Settle k out)
    with queue_inv_resume [OF snoc, of k out] show ?thesis
      by (simp add: queue_run_snoc enqueued_append)
  qed
qed


lemma resume_measure:
  assumes "queue_inv ws q"
  shows "length (queue (resume 0 out q)) + length (inflight (resume 0 out q))
           = length (queue q) + length (inflight q) - 1"
proof (cases "inflight q")
  case Nil
  with assms show ?thesis by (simp add: resume_def queue_inv_def)
next
  case (Cons w rest)
  with assms have w: "inflight q = [w]" by (simp add: queue_inv_def)
  then show ?thesis
    by (cases "queue q"; cases out) (simp_all add: resume_def processNext_def)
qed

lemma settle_all_completes:
  "queue_inv ws q \<Longrightarrow> length (queue q) + length (inflight q) \<le> length outs \<Longrightarrow>
   queue (queue_run (map (Settle 0) outs) q) = []
   \<and> inflight (queue_run (map (Settle 0) outs) q) = []
   \<and> finished (observed (queue_run (map (Settle 0) outs) q)) = ws"
proof (induction outs arbitrary: q)
  case Nil
  then show ?case by (simp add: queue_run_nil queue_inv_def)
next
  case (Cons out outs)
  have inv: "queue_inv ws (resume 0 out q)"
    using Cons.prems(1) by (rule queue_inv_resume)
  have "length (queue (resume 0 out q)) + length (inflight (resume 0 out q)) \<le> length outs"
    using resume_measure [OF Cons.prems(1), of out] Cons.prems(2) by simp
  from Cons.IH [OF inv this] show ?case
    by (simp add: queue_run_def)
qed

lemma rejection_starts_next:
  assumes "queue_inv ws q" "inflight q = [w]" "queue q = x # xs"
  shows "inflight (resume 0 (Rejects err) q) = [x]
         \<and> queue (resume 0 (Rejects err) q) = xs
         \<and> console_error (resume 0 (Rejects err) q) = console_error q @ [err]
         \<and> observed (resume 0 (Rejects err) q)
             = observed q @ [Finish w (Rejects err), Start x]"
  using assms by (simp add: resume_def processNext_def)

lemma manager_run_snoc: "manager_run (ces @ [ce]) m = manager_step ce (manager_run ces m)"
  by (simp add: manager_run_def)

lemma manager_run_channel:
  "manager_run ces Map.empty c
     = (if events_of c ces = [] then None
        else Some (queue_run (events_of c ces) newChannelQueue))"
proof (induction ces rule: rev_induct)
  case Nil
  show ?case by (simp add: manager_run_def events_of_def)
next
  case (snoc ce ces)
  show ?case
  proof (cases "fst ce = c")
    case False
    with snoc show ?thesis
      by (simp add: manager_run_snoc manager_step_def getQueue_def events_of_def
          split: option.splits prod.splits)
  next
    case True
    with snoc show ?thesis
      by (simp add: manager_run_snoc manager_step_def getQueue_def events_of_def
          queue_run_snoc queue_run_nil split: option.splits prod.splits)
  qed
qed

text \<open>
  C2. Each channel of a \<open>QueueManager\<close> has a queue of its own, which sees the events of that
  channel only. For every sequence of events on a queue (items enqueued, promises of started
  items settling, resolved or rejected): the items started so far followed by the items still
  waiting are the items enqueued, in enqueue order; the items finished so far followed by the
  item in flight are the items started, so items finish in enqueue order; at most one item is
  in flight, and no item starts before the one started before it has finished; an item never
  waits while nothing is in flight; when the item in flight rejects, the rejection is logged
  and the next waiting item starts at once; and once the promises in flight and of the waiting
  items have settled, whether resolved or rejected, every enqueued item has finished, in
  enqueue order.
\<close>

theorem C2_channel_queue_order:
  fixes evs :: "'w queue_event list" and ces :: "(string \<times> 'w queue_event) list"
  shows
  "manager_run ces Map.empty c
     = (if events_of c ces = [] then None
        else Some (queue_run (events_of c ces) newChannelQueue))
   \<and> started (observed (queue_run evs newChannelQueue)) @ queue (queue_run evs newChannelQueue)
       = enqueued evs
   \<and> finished (observed (queue_run evs newChannelQueue)) @ inflight (queue_run evs newChannelQueue)
       = started (observed (queue_run evs newChannelQueue))
   \<and> length (inflight (queue_run evs newChannelQueue)) \<le> 1
   \<and> serial (observed (queue_run evs newChannelQueue))
   \<and> (queue (queue_run evs newChannelQueue) \<noteq> [] \<longrightarrow> inflight (queue_run evs newChannelQueue) \<noteq> [])
   \<and> (inflight (queue_run evs newChannelQueue) = [w]
        \<and> queue (queue_run evs newChannelQueue) = x # xs \<longrightarrow>
        observed (queue_run (evs @ [Settle 0 (Rejects err)]) newChannelQueue)
          = observed (queue_run evs newChannelQueue) @ [Finish w (Rejects err), Start x]
        \<and> console_error (queue_run (evs @ [Settle 0 (Rejects err)]) newChannelQueue)
          = console_error (queue_run evs newChannelQueue) @ [err])
   \<and> (length (queue (queue_run evs newChannelQueue))
         + length (inflight (queue_run evs newChannelQueue)) \<le> length outs \<longrightarrow>
        finished (observed (queue_run (evs @ map (Settle 0) outs) newChannelQueue)) = enqueued evs
        \<and> queue (queue_run (evs @ map (Settle 0) outs) newChannelQueue) = []
        \<and> inflight (queue_run (evs @ map (Settle 0) outs) newChannelQueue) = [])"
proof -
  let ?q = "queue_run evs newChannelQueue"
  have inv: "queue_inv (enqueued evs) ?q" by (rule queue_inv_run)
  have app: "queue_run (evs @ evs') newChannelQueue = queue_run evs' ?q" for evs'
    by (simp add: queue_run_def)
  have rej: "inflight ?q = [w] \<and> queue ?q = x # xs \<longrightarrow>
        observed (queue_run (evs @ [Settle 0 (Rejects err)]) newChannelQueue)
          = observed ?q @ [Finish w (Rejects err), Start x]
        \<and> console_error (queue_run (evs @ [Settle 0 (Rejects err)]) newChannelQueue)
          = console_error ?q @ [err]"
    using rejection_starts_next [OF inv, of w x xs err] by (simp add: queue_run_snoc)
  have live: "length (queue ?q) + length (inflight ?q) \<le> length outs \<longrightarrow>
        finished (observed (queue_run (evs @ map (Settle 0) outs) newChannelQueue)) = enqueued evs
        \<and> queue (queue_run (evs @ map (Settle 0) outs) newChannelQueue) = []
        \<and> inflight (queue_run (evs @ map (Settle 0) outs) newChannelQueue) = []"
    using settle_all_completes [OF inv, of outs] by (simp add: app)
  from inv have basics:
    "started (observed ?q) @ queue ?q = enqueued evs"
    "finished (observed ?q) @ inflight ?q = started (observed ?q)"
    "length (inflight ?q) \<le> 1"
    "serial (observed ?q)"
    "queue ?q \<noteq> [] \<longrightarrow> inflight ?q \<noteq> []"
    by (simp_all add: queue_inv_def)
  show ?thesis
    using manager_run_channel [of ces c] basics rej live by blast
qed

theorem C2_channel_queue_order_witness:
  "length (queue (queue_run [Enqueue ''a'', Enqueue ''b'', Enqueue ''c''] newChannelQueue))
     + length (inflight (queue_run [Enqueue ''a'', Enqueue ''b'', Enqueue ''c''] newChannelQueue))
     \<le> length [Rejects ''boom'', Resolves, Resolves]
   \<and> inflight (queue_run [Enqueue ''a'', Enqueue ''b'', Enqueue ''c''] newChannelQueue) = [''a'']
   \<and> queue (queue_run [Enqueue ''a'', Enqueue ''b'', Enqueue ''c''] newChannelQueue) = [''b'', ''c'']
   \<and> observed (queue_run ([Enqueue ''a'', Enqueue ''b'', Enqueue ''c''] @ [Settle 0 (Rejects ''boom'')])
                 newChannelQueue)
       = [Start ''a'', Finish ''a'' (Rejects ''boom''), Start ''b'']
   \<and> finished (observed (queue_run ([Enqueue ''a'', Enqueue ''b'', Enqueue ''c'']
          @ map (Settle 0) [Rejects ''boom'', Resolves, Resolves]) newChannelQueue))
       = [''a'', ''b'', ''c'']"
proof -
  let ?evs = "[Enqueue ''a'', Enqueue ''b'', Enqueue ''c'']"
  have q: "queue_run ?evs newChannelQueue
             = \<lparr>queue = [''b'', ''c''], processing = True, inflight = [''a''],
                observed = [Start ''a''], console_error = []\<rparr>"
    by (simp add: queue_run_def enqueue_def processNext_def newChannelQueue_def)
  have h1: "inflight (queue_run ?evs newChannelQueue) = [''a'']
            \<and> queue (queue_run ?evs newChannelQueue) = [''b'', ''c'']"
    by (simp add: q)
  have h2: "length (queue (queue_run ?evs newChannelQueue))
              + length (inflight (queue_run ?evs newChannelQueue))
            \<le> length [Rejects ''boom'', Resolves, Resolves]"
    by (simp add: q)
  note th = C2_channel_queue_order [of "[]" "''C''" ?evs "''a''" "''b''" "[''c'']" "''boom''"
        "[Rejects ''boom'', Resolves, Resolves]"]
  from th h1 have "observed (queue_run (?evs @ [Settle 0 (Rejects ''boom'')]) newChannelQueue)
          = observed (queue_run ?evs newChannelQueue) @ [Finish ''a'' (Rejects ''boom''), Start ''b'']"
    by blast
  then have o: "observed (queue_run (?evs @ [Settle 0 (Rejects ''boom'')]) newChannelQueue)
          = [Start ''a'', Finish ''a'' (Rejects ''boom''), Start ''b'']"
    by (simp add: q)
  from th h2 have "finished (observed (queue_run (?evs @ map (Settle 0)
           [Rejects ''boom'', Resolves, Resolves]) newChannelQueue)) = enqueued ?evs"
    by blast
  then have f: "finished (observed (queue_run (?evs @ map (Settle 0)
           [Rejects ''boom'', Resolves, Resolves]) newChannelQueue)) = [''a'', ''b'', ''c'']"
    by simp
  from h1 h2 o f show ?thesis by blast
qed

section \<open>Properties of the session persistence of runAgent\<close>

lemma missing_fold:
  "missingFileSendTools (fold on_message msgs v)
     = (missingFileSendTools v \<or> degraded msgs)"
proof (induction msgs arbitrary: v)
  case Nil
  show ?case by (simp add: degraded_def)
next
  case (Cons m rest)
  show ?case
    by (cases m) (auto simp: Cons degraded_def Let_def FILE_SEND_TOOL_CANDIDATES_def)
qed

lemma missing_consume:
  "missingFileSendTools (consume_stream msgs qsid) = degraded msgs"
  by (simp add: consume_stream_def Let_def missing_fold)

text \<open>
  C1 (as amended). For every run of \<open>runAgent\<close> that consumes its stream: if the session was
  degraded (a system message reported no file-send tool) and a non-empty session id was
  persisted for the workspace before the run, then after the run no session id is persisted
  for the workspace; if the session was not degraded, or no session id was persisted before
  the run, and a session id was observed, then that id is persisted; with no session id
  observed and nothing to clear the store is unchanged; the ids of other workspaces are
  never touched.
\<close>

theorem C1_session_persistence:
  "(degraded msgs \<and> truthy (getSessionId ws store) \<longrightarrow>
      getSessionId ws (runAgent_sessions ws msgs qsid store) = None)
   \<and> (\<not> (degraded msgs \<and> truthy (getSessionId ws store))
        \<and> sessionId (consume_stream msgs qsid) \<noteq> [] \<longrightarrow>
      getSessionId ws (runAgent_sessions ws msgs qsid store)
        = Some (sessionId (consume_stream msgs qsid)))
   \<and> (\<not> (degraded msgs \<and> truthy (getSessionId ws store))
        \<and> sessionId (consume_stream msgs qsid) = [] \<longrightarrow>
      runAgent_sessions ws msgs qsid store = store)
   \<and> (ws' \<noteq> ws \<longrightarrow>
      getSessionId ws' (runAgent_sessions ws msgs qsid store) = getSessionId ws' store)"
  by (simp add: runAgent_sessions_def Let_def missing_consume getSessionId_def
      saveSessionId_def clearSessionId_def)

theorem C1_session_persistence_witness:
  "degraded [SystemMessage ''s2'' (Some [''Bash''])]
   \<and> truthy (getSessionId ''/ws'' [''/ws'' \<mapsto> ''s1''])
   \<and> getSessionId ''/ws''
        (runAgent_sessions ''/ws'' [SystemMessage ''s2'' (Some [''Bash''])] [] [''/ws'' \<mapsto> ''s1''])
       = None
   \<and> \<not> degraded [SystemMessage ''s2'' (Some [''Bash'', ''SendFileToChat'']), ResultMessage ''s2'']
   \<and> getSessionId ''/ws''
        (runAgent_sessions ''/ws''
           [SystemMessage ''s2'' (Some [''Bash'', ''SendFileToChat'']), ResultMessage ''s2''] []
           [''/ws'' \<mapsto> ''s1''])
       = Some ''s2''
   \<and> getSessionId ''/other''
        (runAgent_sessions ''/ws'' [SystemMessage ''s2'' (Some [''Bash''])] [] [''/ws'' \<mapsto> ''s1''])
       = None"
proof -
  have d1: "degraded [SystemMessage ''s2'' (Some [''Bash''])]"
    by (simp add: degraded_def FILE_SEND_TOOL_CANDIDATES_def js_nullish_def)
  have t1: "truthy (getSessionId ''/ws'' [''/ws'' \<mapsto> ''s1''])"
    by (simp add: truthy_def getSessionId_def)
  have d2: "\<not> degraded [SystemMessage ''s2'' (Some [''Bash'', ''SendFileToChat'']), ResultMessage ''s2'']"
    by (simp add: degraded_def FILE_SEND_TOOL_CANDIDATES_def js_nullish_def)
  have s2: "sessionId (consume_stream
       [SystemMessage ''s2'' (Some [''Bash'', ''SendFileToChat'']), ResultMessage ''s2''] []) = ''s2''"
    by (simp add: consume_stream_def FILE_SEND_TOOL_CANDIDATES_def js_nullish_def Let_def)
  have o: "''/other'' \<noteq> ''/ws''" by simp
  note a = C1_session_persistence [of "[SystemMessage ''s2'' (Some [''Bash''])]" "''/ws''"
      "[''/ws'' \<mapsto> ''s1'']" "[]" "''/other''"]
  note b = C1_session_persistence [of
      "[SystemMessage ''s2'' (Some [''Bash'', ''SendFileToChat'']), ResultMessage ''s2'']" "''/ws''"
      "[''/ws'' \<mapsto> ''s1'']" "[]" "''/other''"]
  from a d1 t1 have r1: "getSessionId ''/ws''
        (runAgent_sessions ''/ws'' [SystemMessage ''s2'' (Some [''Bash''])] [] [''/ws'' \<mapsto> ''s1''])
       = None" by blast
  from b d2 s2 have r2: "getSessionId ''/ws''
        (runAgent_sessions ''/ws''
           [SystemMessage ''s2'' (Some [''Bash'', ''SendFileToChat'']), ResultMessage ''s2''] []
           [''/ws'' \<mapsto> ''s1''])
       = Some ''s2''" by simp
  from a o have r3: "getSessionId ''/other''
        (runAgent_sessions ''/ws'' [SystemMessage ''s2'' (Some [''Bash''])] [] [''/ws'' \<mapsto> ''s1''])
       = None" by (simp add: getSessionId_def)
  from d1 t1 r1 d2 r2 r3 show ?thesis by blast
qed

text \<open>
  C1 as stated fails for a degraded session that was not resumed: with nothing persisted
  before the run, the id of the degraded session is saved.
\<close>

theorem C1_degraded_fresh_session_counterexample:
  "degraded [SystemMessage ''s1'' (Some [''Bash'']), ResultMessage ''s1'']
   \<and> getSessionId ''/ws'' Map.empty = None
   \<and> getSessionId ''/ws''
        (runAgent_sessions ''/ws'' [SystemMessage ''s1'' (Some [''Bash'']), ResultMessage ''s1''] []
           Map.empty)
       = Some ''s1''"
  by (simp add: degraded_def FILE_SEND_TOOL_CANDIDATES_def js_nullish_def runAgent_sessions_def
      consume_stream_def Let_def getSessionId_def saveSessionId_def clearSessionId_def truthy_def)

section \<open>Properties of SchedulerBridge\<close>

lemma details_summary:
  "ev_summary event = Some s \<Longrightarrow>
   sublist s (js_nullish (js_or (js_or (ev_summary event) (ev_error event)) (Some ''completed''))
                      ''completed'')"
  by (cases s) (simp_all add: js_or_def js_nullish_def)

lemma sublist_mid: "sublist j (p @ j @ q)"
  unfolding sublist_def by blast

lemma sublist_end: "sublist s d \<Longrightarrow> sublist s (p @ d)"
  by (metis sublist_appendI sublist_order.order_trans sublist_append_leftI)

lemma finished_text_ok:
  assumes "ev_jobId event = Some j" "ev_status event = Some StatusOk \<or> ev_status event = None"
  shows "sublist j (formatFinishedEventText event)
         \<and> (\<forall>s. ev_summary event = Some s \<longrightarrow> sublist s (formatFinishedEventText event))"
proof -
  let ?d = "js_nullish (js_or (js_or (ev_summary event) (ev_error event)) (Some ''completed''))
                      ''completed''"
  from assms have t: "formatFinishedEventText event = ''Scheduled job '' @ j @ '': '' @ ?d"
    by (auto simp: formatFinishedEventText_def Let_def js_nullish_def)
  have a: "sublist j (''Scheduled job '' @ j @ '': '' @ ?d)" by (rule sublist_mid)
  have b: "sublist s (''Scheduled job '' @ j @ '': '' @ ?d)" if "ev_summary event = Some s" for s
    using details_summary [OF that] by (intro sublist_end)
  from a b show ?thesis unfolding t by blast
qed

lemma finished_event_routed:
  assumes "workspaces b ws = Some state"
    and "ev_action event = Some Finished"
    and "ev_jobId event = Some j" and "j \<noteq> []"
  shows
  "(resolve j (routes state) = Some r
      \<and> (ev_status event = Some StatusOk \<or> ev_status event = None) \<longrightarrow>
      deliveries (handleMessage onDelivery ws (SchedulerEventMsg (Some event)) b)
        = deliveries b @ [(r, formatFinishedEventText event)]
      \<and> sublist j (formatFinishedEventText event)
      \<and> (\<forall>s. ev_summary event = Some s \<longrightarrow> sublist s (formatFinishedEventText event))
      \<and> workspaces (handleMessage onDelivery ws (SchedulerEventMsg (Some event)) b) = workspaces b)
   \<and> (resolve j (routes state) = None \<longrightarrow>
      handleMessage onDelivery ws (SchedulerEventMsg (Some event)) b
        = b\<lparr>logged := logged b @ [WarnNoRoute ws event]\<rparr>)"
proof (intro conjI impI)
  assume h: "resolve j (routes state) = Some r
      \<and> (ev_status event = Some StatusOk \<or> ev_status event = None)"
  from assms(4) obtain c cs where j: "j = c # cs" by (cases j) auto
  from h assms(1-3) j
  show "deliveries (handleMessage onDelivery ws (SchedulerEventMsg (Some event)) b)
        = deliveries b @ [(r, formatFinishedEventText event)]"
    by (simp add: handleMessage_def Let_def)
  from h assms(1-3) j
  show "workspaces (handleMessage onDelivery ws (SchedulerEventMsg (Some event)) b) = workspaces b"
    by (simp add: handleMessage_def Let_def)
  from h finished_text_ok [OF assms(3)]
  show "sublist j (formatFinishedEventText event)"
    and "\<forall>s. ev_summary event = Some s \<longrightarrow> sublist s (formatFinishedEventText event)"
    by blast+
next
  assume h: "resolve j (routes state) = None"
  from assms(4) obtain c cs where j: "j = c # cs" by (cases j) auto
  from h assms(1-3) j
  show "handleMessage onDelivery ws (SchedulerEventMsg (Some event)) b
        = b\<lparr>logged := logged b @ [WarnNoRoute ws event]\<rparr>"
    by (simp add: handleMessage_def Let_def)
qed

lemma event_without_job_id_ignored:
  assumes "ev_jobId event = None \<or> ev_jobId event = Some []"
  shows "handleMessage onDelivery ws (SchedulerEventMsg (Some event)) b = b"
  using assms
  by (auto simp: handleMessage_def split: option.splits list.splits)

lemma message_without_session_ignored:
  assumes "workspaces b ws = None"
  shows "handleMessage onDelivery ws message b = b"
  using assms
  by (simp add: handleMessage_def split: bridge_message.splits)

text \<open>
  C9 (as amended). For every message that \<open>handleMessage\<close> is given. Where the workspace has
  a scheduler session and the message is a \<open>scheduler_event\<close> whose event has action
  \<open>finished\<close> and a non-empty job id: if the job id resolves to a route and the status is
  \<open>ok\<close> (or absent, which reads as \<open>ok\<close>), the delivery callback is called exactly once, with
  that route and a text that contains the job id and, when the event has one, the summary,
  and the routing table is unchanged; if the job id resolves to no route, the callback is
  not called, one warning is logged and nothing else changes, so nothing is kept for a
  retry. An event whose job id is missing or empty is ignored, whatever its action and
  whatever the routes: no delivery, no warning, no change. Where the workspace has no
  scheduler session every message is ignored.
\<close>

theorem C9_finished_event_delivery:
  "(workspaces b ws = Some state \<and> ev_action event = Some Finished
      \<and> ev_jobId event = Some j \<and> j \<noteq> [] \<longrightarrow>
      (resolve j (routes state) = Some r
         \<and> (ev_status event = Some StatusOk \<or> ev_status event = None) \<longrightarrow>
         deliveries (handleMessage onDelivery ws (SchedulerEventMsg (Some event)) b)
           = deliveries b @ [(r, formatFinishedEventText event)]
         \<and> sublist j (formatFinishedEventText event)
         \<and> (\<forall>s. ev_summary event = Some s \<longrightarrow> sublist s (formatFinishedEventText event))
         \<and> workspaces (handleMessage onDelivery ws (SchedulerEventMsg (Some event)) b)
             = workspaces b)
      \<and> (resolve j (routes state) = None \<longrightarrow>
         handleMessage onDelivery ws (SchedulerEventMsg (Some event)) b
           = b\<lparr>logged := logged b @ [WarnNoRoute ws event]\<rparr>))
   \<and> (ev_jobId event = None \<or> ev_jobId event = Some [] \<longrightarrow>
        handleMessage onDelivery ws (SchedulerEventMsg (Some event)) b = b)
   \<and> (workspaces b ws = None \<longrightarrow> handleMessage onDelivery ws message b = b)"
proof (intro conjI)
  show "workspaces b ws = Some state \<and> ev_action event = Some Finished
      \<and> ev_jobId event = Some j \<and> j \<noteq> [] \<longrightarrow>
      (resolve j (routes state) = Some r
         \<and> (ev_status event = Some StatusOk \<or> ev_status event = None) \<longrightarrow>
         deliveries (handleMessage onDelivery ws (SchedulerEventMsg (Some event)) b)
           = deliveries b @ [(r, formatFinishedEventText event)]
         \<and> sublist j (formatFinishedEventText event)
         \<and> (\<forall>s. ev_summary event = Some s \<longrightarrow> sublist s (formatFinishedEventText event))
         \<and> workspaces (handleMessage onDelivery ws (SchedulerEventMsg (Some event)) b)
             = workspaces b)
      \<and> (resolve j (routes state) = None \<longrightarrow>
         handleMessage onDelivery ws (SchedulerEventMsg (Some event)) b
           = b\<lparr>logged := logged b @ [WarnNoRoute ws event]\<rparr>)"
    using finished_event_routed [of b ws state event j r onDelivery] by blast
next
  show "ev_jobId event = None \<or> ev_jobId event = Some [] \<longrightarrow>
        handleMessage onDelivery ws (SchedulerEventMsg (Some event)) b = b"
    using event_without_job_id_ignored [of event onDelivery ws b] by blast
next
  show "workspaces b ws = None \<longrightarrow> handleMessage onDelivery ws message b = b"
    using message_without_session_ignored [of b ws onDelivery message] by blast
qed

theorem C9_finished_event_delivery_witness:
  "deliveries (handleMessage (\<lambda>r t. True) ''/ws''
      (SchedulerEventMsg (Some \<lparr>ev_jobId = Some ''job-7'', ev_action = Some Finished,
         ev_status = Some StatusOk, ev_summary = Some ''Backup done'', ev_error = None\<rparr>))
      \<lparr>workspaces = [''/ws'' \<mapsto> \<lparr>routes = bindJob ''job-7''
           (setLatestRoute \<lparr>channelId = ''C1'', threadTs = None, mode = Dm\<rparr> newSchedulerRoutes),
           closing = False\<rparr>],
        deliveries = [], logged = []\<rparr>)
     = [(\<lparr>channelId = ''C1'', threadTs = None, mode = Dm\<rparr>, ''Scheduled job job-7: Backup done'')]
   \<and> handleMessage (\<lambda>r t. True) ''/ws''
      (SchedulerEventMsg (Some \<lparr>ev_jobId = Some ''job-7'', ev_action = Some Finished,
         ev_status = Some StatusOk, ev_summary = Some ''Backup done'', ev_error = None\<rparr>))
      \<lparr>workspaces = [''/ws'' \<mapsto> \<lparr>routes = newSchedulerRoutes, closing = False\<rparr>],
        deliveries = [], logged = []\<rparr>
     = \<lparr>workspaces = [''/ws'' \<mapsto> \<lparr>routes = newSchedulerRoutes, closing = False\<rparr>],
        deliveries = [],
        logged = [WarnNoRoute ''/ws'' \<lparr>ev_jobId = Some ''job-7'', ev_action = Some Finished,
         ev_status = Some StatusOk, ev_summary = Some ''Backup done'', ev_error = None\<rparr>]\<rparr>
   \<and> handleMessage (\<lambda>r t. True) ''/ws''
      (SchedulerEventMsg (Some \<lparr>ev_jobId = None, ev_action = Some Finished,
         ev_status = Some StatusOk, ev_summary = Some ''Backup done'', ev_error = None\<rparr>))
      \<lparr>workspaces = [''/ws'' \<mapsto> \<lparr>routes = bindJob ''job-7''
           (setLatestRoute \<lparr>channelId = ''C1'', threadTs = None, mode = Dm\<rparr> newSchedulerRoutes),
           closing = False\<rparr>],
        deliveries = [], logged = []\<rparr>
     = \<lparr>workspaces = [''/ws'' \<mapsto> \<lparr>routes = bindJob ''job-7''
           (setLatestRoute \<lparr>channelId = ''C1'', threadTs = None, mode = Dm\<rparr> newSchedulerRoutes),
           closing = False\<rparr>],
        deliveries = [], logged = []\<rparr>
   \<and> handleMessage (\<lambda>r t. True) ''/elsewhere''
      (SchedulerEventMsg (Some \<lparr>ev_jobId = Some ''job-7'', ev_action = Some Finished,
         ev_status = Some StatusOk, ev_summary = Some ''Backup done'', ev_error = None\<rparr>))
      \<lparr>workspaces = [''/ws'' \<mapsto> \<lparr>routes = newSchedulerRoutes, closing = False\<rparr>],
        deliveries = [], logged = []\<rparr>
     = \<lparr>workspaces = [''/ws'' \<mapsto> \<lparr>routes = newSchedulerRoutes, closing = False\<rparr>],
        deliveries = [], logged = []\<rparr>"
proof -
  let ?ev = "\<lparr>ev_jobId = Some ''job-7'', ev_action = Some Finished,
         ev_status = Some StatusOk, ev_summary = Some ''Backup done'', ev_error = None\<rparr>"
  let ?anon = "\<lparr>ev_jobId = None, ev_action = Some Finished,
         ev_status = Some StatusOk, ev_summary = Some ''Backup done'', ev_error = None\<rparr>"
  let ?r = "\<lparr>channelId = ''C1'', threadTs = None, mode = Dm\<rparr>"
  let ?bound = "\<lparr>routes = bindJob ''job-7'' (setLatestRoute ?r newSchedulerRoutes), closing = False\<rparr>"
  let ?fresh = "\<lparr>routes = newSchedulerRoutes, closing = False\<rparr>"
  let ?bb = "\<lparr>workspaces = [''/ws'' \<mapsto> ?bound], deliveries = [], logged = []\<rparr>"
  let ?bf = "\<lparr>workspaces = [''/ws'' \<mapsto> ?fresh], deliveries = [], logged = []\<rparr>"
  have pre1: "workspaces ?bb ''/ws'' = Some ?bound \<and> ev_action ?ev = Some Finished
              \<and> ev_jobId ?ev = Some ''job-7'' \<and> ''job-7'' \<noteq> []"
    by simp
  have pre2: "workspaces ?bf ''/ws'' = Some ?fresh \<and> ev_action ?ev = Some Finished
              \<and> ev_jobId ?ev = Some ''job-7'' \<and> ''job-7'' \<noteq> []"
    by simp
  have r1: "resolve ''job-7'' (routes ?bound) = Some ?r
            \<and> (ev_status ?ev = Some StatusOk \<or> ev_status ?ev = None)"
    by (simp add: resolve_def bindJob_def setLatestRoute_def newSchedulerRoutes_def)
  have r2: "resolve ''job-7'' (routes ?fresh) = None"
    by (simp add: resolve_def newSchedulerRoutes_def)
  have noid: "ev_jobId ?anon = None \<or> ev_jobId ?anon = Some []" by simp
  have nosession: "workspaces ?bf ''/elsewhere'' = None" by simp
  have t: "formatFinishedEventText ?ev = ''Scheduled job job-7: Backup done''"
    by (simp add: formatFinishedEventText_def js_nullish_def js_or_def)
  from C9_finished_event_delivery [of ?bb "''/ws''" ?bound ?ev "''job-7''" ?r "\<lambda>r t. True"] pre1 r1
  have d: "deliveries (handleMessage (\<lambda>r t. True) ''/ws'' (SchedulerEventMsg (Some ?ev)) ?bb)
        = deliveries ?bb @ [(?r, formatFinishedEventText ?ev)]"
    by blast
  from C9_finished_event_delivery [of ?bf "''/ws''" ?fresh ?ev "''job-7''" ?r "\<lambda>r t. True"] pre2 r2
  have e: "handleMessage (\<lambda>r t. True) ''/ws'' (SchedulerEventMsg (Some ?ev)) ?bf
        = ?bf\<lparr>logged := logged ?bf @ [WarnNoRoute ''/ws'' ?ev]\<rparr>"
    by blast
  from C9_finished_event_delivery [of ?bb "''/ws''" ?bound ?anon "''job-7''" ?r "\<lambda>r t. True"] noid
  have i: "handleMessage (\<lambda>r t. True) ''/ws'' (SchedulerEventMsg (Some ?anon)) ?bb = ?bb"
    by blast
  from C9_finished_event_delivery [of ?bf "''/elsewhere''" ?fresh ?ev "''job-7''" ?r "\<lambda>r t. True"
      "SchedulerEventMsg (Some ?ev)"] nosession
  have s: "handleMessage (\<lambda>r t. True) ''/elsewhere'' (SchedulerEventMsg (Some ?ev)) ?bf = ?bf"
    by blast
  from d t have d': "deliveries (handleMessage (\<lambda>r t. True) ''/ws'' (SchedulerEventMsg (Some ?ev)) ?bb)
        = [(?r, ''Scheduled job job-7: Backup done'')]"
    by simp
  from e have e': "handleMessage (\<lambda>r t. True) ''/ws'' (SchedulerEventMsg (Some ?ev)) ?bf
        = \<lparr>workspaces = [''/ws'' \<mapsto> ?fresh], deliveries = [], logged = [WarnNoRoute ''/ws'' ?ev]\<rparr>"
    by simp
  from d' e' i s show ?thesis by blast
qed

text \<open>
  C9 as stated fails for a \<open>finished\<close> event whose job id is the empty string: the guard
  \<open>!event.jobId\<close> returns before the route is resolved, so a route that \<open>resolve\<close> would
  give is not delivered to, and with no route no warning is logged.
\<close>

theorem C9_empty_job_id_counterexample:
  "resolve '''' (setLatestRoute \<lparr>channelId = ''C1'', threadTs = None, mode = Dm\<rparr> newSchedulerRoutes)
     = Some \<lparr>channelId = ''C1'', threadTs = None, mode = Dm\<rparr>
   \<and> deliveries (handleMessage (\<lambda>r t. True) ''/ws''
      (SchedulerEventMsg (Some \<lparr>ev_jobId = Some '''', ev_action = Some Finished,
         ev_status = Some StatusOk, ev_summary = Some ''Backup done'', ev_error = None\<rparr>))
      \<lparr>workspaces = [''/ws'' \<mapsto> \<lparr>routes =
           setLatestRoute \<lparr>channelId = ''C1'', threadTs = None, mode = Dm\<rparr> newSchedulerRoutes,
           closing = False\<rparr>],
        deliveries = [], logged = []\<rparr>)
     = []
   \<and> resolve '''' newSchedulerRoutes = None
   \<and> logged (handleMessage (\<lambda>r t. True) ''/ws''
      (SchedulerEventMsg (Some \<lparr>ev_jobId = Some '''', ev_action = Some Finished,
         ev_status = Some StatusOk, ev_summary = Some ''Backup done'', ev_error = None\<rparr>))
      \<lparr>workspaces = [''/ws'' \<mapsto> \<lparr>routes = newSchedulerRoutes, closing = False\<rparr>],
        deliveries = [], logged = []\<rparr>)
     = []"
  by (simp add: handleMessage_def resolve_def setLatestRoute_def newSchedulerRoutes_def)

section \<open>Properties of the SendFileToChat handler and of the tool-output queue\<close>

lemma set_unique_acc: "set (unique_acc seen xs) = set seen \<union> set xs"
  by (induction xs arbitrary: seen) auto

lemma set_unique: "set (unique xs) = set xs"
  by (simp add: unique_def set_unique_acc)

lemma distinct_unique_acc: "distinct seen \<Longrightarrow> distinct (unique_acc seen xs)"
  by (induction xs arbitrary: seen) auto

lemma distinct_unique: "distinct (unique xs)"
  by (simp add: unique_def distinct_unique_acc)

lemma drained_uploads_checked:
  assumes "p \<in> set (uploads (fst (drainWorkspaceToolQueue JSON_parse now workspaceDir fs)))"
  shows "existsSync fs p \<and> startsWith p (path_resolve (cwd fs) [workspaceDir])"
  using assms
  by (auto simp: drainWorkspaceToolQueue_def normalizeQueueSnapshot_def Let_def set_unique
      split: option.splits json.splits if_splits)

lemma queueFile_cases:
  "queueFile fs workspaceDir filePath collector =
     (if \<not> startsWith (path_resolve (cwd fs) [filePath]) (path_resolve (cwd fs) [workspaceDir])
      then (''Error: file must be within your workspace '' @ path_resolve (cwd fs) [workspaceDir],
            collector)
      else if \<not> existsSync fs (path_resolve (cwd fs) [filePath])
      then (''Error: file not found at '' @ path_resolve (cwd fs) [filePath], collector)
      else (''File queued for upload: '' @ path_resolve (cwd fs) [filePath],
            collector\<lparr>pending := pending collector @ [path_resolve (cwd fs) [filePath]]\<rparr>))"
  by (simp add: queueFile_def collect_def Let_def)

lemma resolve_evil: "path_resolve ''/srv/app'' [''/ws-evil/secret.txt''] = ''/ws-evil/secret.txt''"
  by (simp add: path_resolve_def normalize_segments_def isAbsolute_def)

lemma resolve_ws: "path_resolve ''/srv/app'' [''/ws''] = ''/ws''"
  by (simp add: path_resolve_def normalize_segments_def isAbsolute_def)

text \<open>
  C10, at a path beside the workspace. With the workspace \<open>/ws\<close> and the existing file
  \<open>/ws-evil/secret.txt\<close>, the resolved path is not inside the workspace, yet \<open>queueFile\<close>
  answers with the success text and appends the path to the pending list: the test
  \<open>absPath.startsWith(absWorkspace)\<close> compares characters, not path segments.
\<close>

theorem C10_queueFile_sibling_directory:
  "\<not> inside_workspace (path_resolve ''/srv/app'' [''/ws''])
        (path_resolve ''/srv/app'' [''/ws-evil/secret.txt''])
   \<and> queueFile \<lparr>cwd = ''/srv/app'', existsSync = (\<lambda>p. p = ''/ws-evil/secret.txt''),
                 mtimeMs = (\<lambda>p. None), readFile = (\<lambda>p. None)\<rparr>
        ''/ws'' ''/ws-evil/secret.txt'' \<lparr>pending = [], pendingMessages = []\<rparr>
     = (''File queued for upload: /ws-evil/secret.txt'',
        \<lparr>pending = [''/ws-evil/secret.txt''], pendingMessages = []\<rparr>)"
  by (simp add: queueFile_def collect_def resolve_evil resolve_ws inside_workspace_def
      startsWith_def Let_def)

lemma queue_path_ws:
  "getWorkspaceToolQueuePath ''/ws'' = ''/ws/.papert/.papert-claw-runtime/tool-queue.json''"
  by (simp add: getWorkspaceToolQueuePath_def TOOL_QUEUE_RELATIVE_PATH_def path_join_def
      path_normalize_def normalize_segments_def isAbsolute_def)

lemma resolve_queue_path:
  "path_resolve ''/srv/app'' [''/ws/.papert/.papert-claw-runtime/tool-queue.json'']
     = ''/ws/.papert/.papert-claw-runtime/tool-queue.json''"
  by (simp add: path_resolve_def normalize_segments_def isAbsolute_def)

lemma resolve_in_ws:
  "path_resolve ''/srv/app'' [''/ws'', ''../ws-evil/secret.txt''] = ''/ws-evil/secret.txt''"
  by (simp add: path_resolve_def normalize_segments_def isAbsolute_def)

lemma resolve_in_ws_a: "path_resolve ''/srv/app'' [''/ws'', ''a.pdf''] = ''/ws/a.pdf''"
  by (simp add: path_resolve_def normalize_segments_def isAbsolute_def)

text \<open>
  C7, at a queue file that names a path beside the workspace. With the workspace \<open>/ws\<close>,
  the existing file \<open>/ws-evil/secret.txt\<close> and the queued upload \<open>../ws-evil/secret.txt\<close>,
  the snapshot that the drain returns holds \<open>/ws-evil/secret.txt\<close>, which is not inside the
  workspace: \<open>normalizeQueueSnapshot\<close> tests \<open>item.startsWith(workspaceRoot)\<close>.
\<close>

theorem C7_drain_returns_sibling_path:
  \<open>\<not> inside_workspace (path_resolve ''/srv/app'' [''/ws'']) ''/ws-evil/secret.txt''
   \<and> fst (drainWorkspaceToolQueue
        (\<lambda>raw. if raw = ''{"uploads":["../ws-evil/secret.txt"],"messages":[]}''
               then Some (JObject [(''uploads'', JArray [JString ''../ws-evil/secret.txt'']),
                                   (''messages'', JArray [])])
               else None)
        5000 ''/ws''
        \<lparr>cwd = ''/srv/app'',
         existsSync = (\<lambda>p. p \<in> {''/ws-evil/secret.txt'',
                                ''/ws/.papert/.papert-claw-runtime/tool-queue.json''}),
         mtimeMs = (\<lambda>p. None),
         readFile = (\<lambda>p. if p = ''/ws/.papert/.papert-claw-runtime/tool-queue.json''
                        then Some ''{"uploads":["../ws-evil/secret.txt"],"messages":[]}''
                        else None)\<rparr>)
     = \<lparr>uploads = [''/ws-evil/secret.txt''], messages = []\<rparr>\<close>
  by (simp add: drainWorkspaceToolQueue_def queue_path_ws resolve_queue_path resolve_ws
      resolve_in_ws normalizeQueueSnapshot_def is_object_def property_def inside_workspace_def
      startsWith_def unique_def Let_def)


lemma cwd_mkdir: "cwd (mkdir_recursive now dir fs) = cwd fs"
  by (simp add: mkdir_recursive_def Let_def)

lemma cwd_reset: "cwd (resetWorkspaceToolQueue now workspaceDir fs) = cwd fs"
  by (simp add: resetWorkspaceToolQueue_def writeFile_def cwd_mkdir Let_def)

lemma read_after_reset:
  "readFile (resetWorkspaceToolQueue now workspaceDir fs)
     (path_resolve (cwd fs) [getWorkspaceToolQueuePath workspaceDir]) = Some EMPTY_QUEUE_TEXT"
  by (simp add: resetWorkspaceToolQueue_def writeFile_def cwd_mkdir Let_def)

lemma exists_after_reset:
  "existsSync (resetWorkspaceToolQueue now workspaceDir fs)
     (path_resolve (cwd fs) [getWorkspaceToolQueuePath workspaceDir])"
  by (simp add: resetWorkspaceToolQueue_def writeFile_def cwd_mkdir Let_def)

lemma normalize_empty_object:
  "normalizeQueueSnapshot fs (JObject [(''uploads'', JArray []), (''messages'', JArray [])]) workspaceDir
     = \<lparr>uploads = [], messages = []\<rparr>"
  by (simp add: normalizeQueueSnapshot_def is_object_def property_def unique_def Let_def)

lemma drain_resets:
  "snd (drainWorkspaceToolQueue JSON_parse now workspaceDir fs)
     = resetWorkspaceToolQueue now workspaceDir fs"
  by (simp add: drainWorkspaceToolQueue_def Let_def)

lemma drain_of_empty_text:
  assumes "JSON_parse EMPTY_QUEUE_TEXT
             = Some (JObject [(''uploads'', JArray []), (''messages'', JArray [])])"
    and "readFile fs (path_resolve (cwd fs) [getWorkspaceToolQueuePath workspaceDir])
           = Some EMPTY_QUEUE_TEXT"
  shows "fst (drainWorkspaceToolQueue JSON_parse now workspaceDir fs)
           = \<lparr>uploads = [], messages = []\<rparr>"
  using assms by (simp add: drainWorkspaceToolQueue_def Let_def normalize_empty_object)

lemma drain_of_missing_or_malformed:
  assumes "readFile fs (path_resolve (cwd fs) [getWorkspaceToolQueuePath workspaceDir]) = None
           \<or> (\<exists>raw. readFile fs (path_resolve (cwd fs) [getWorkspaceToolQueuePath workspaceDir])
                        = Some raw \<and> JSON_parse raw = None)"
  shows "fst (drainWorkspaceToolQueue JSON_parse now workspaceDir fs)
           = \<lparr>uploads = [], messages = []\<rparr>"
  using assms by (auto simp: drainWorkspaceToolQueue_def Let_def)

text \<open>
  C8. Provided \<open>JSON.parse\<close> reads the text that the reset writes as the object with two
  empty lists: for every workspace and file system, the drain that follows a drain returns
  empty upload and message lists, the first drain having left the reset text in the queue
  file; and a drain of a queue file that holds the reset text, or of no queue file at all,
  returns empty lists.
\<close>

theorem C8_drain_idempotent_clearing:
  assumes "JSON_parse EMPTY_QUEUE_TEXT
             = Some (JObject [(''uploads'', JArray []), (''messages'', JArray [])])"
  shows
  "fst (drainWorkspaceToolQueue JSON_parse now2 workspaceDir
          (snd (drainWorkspaceToolQueue JSON_parse now1 workspaceDir fs)))
     = \<lparr>uploads = [], messages = []\<rparr>
   \<and> readFile (snd (drainWorkspaceToolQueue JSON_parse now1 workspaceDir fs))
         (path_resolve (cwd fs) [getWorkspaceToolQueuePath workspaceDir]) = Some EMPTY_QUEUE_TEXT
   \<and> (readFile fs (path_resolve (cwd fs) [getWorkspaceToolQueuePath workspaceDir])
          = Some EMPTY_QUEUE_TEXT
        \<or> readFile fs (path_resolve (cwd fs) [getWorkspaceToolQueuePath workspaceDir]) = None
        \<longrightarrow> fst (drainWorkspaceToolQueue JSON_parse now1 workspaceDir fs)
              = \<lparr>uploads = [], messages = []\<rparr>)"
proof (intro conjI impI)
  let ?fs1 = "snd (drainWorkspaceToolQueue JSON_parse now1 workspaceDir fs)"
  have fs1: "?fs1 = resetWorkspaceToolQueue now1 workspaceDir fs" by (rule drain_resets)
  have r: "readFile ?fs1 (path_resolve (cwd ?fs1) [getWorkspaceToolQueuePath workspaceDir])
             = Some EMPTY_QUEUE_TEXT"
    by (simp add: fs1 cwd_reset read_after_reset)
  show "fst (drainWorkspaceToolQueue JSON_parse now2 workspaceDir ?fs1)
          = \<lparr>uploads = [], messages = []\<rparr>"
    using assms r by (rule drain_of_empty_text)
  show "readFile ?fs1 (path_resolve (cwd fs) [getWorkspaceToolQueuePath workspaceDir])
          = Some EMPTY_QUEUE_TEXT"
    by (simp add: fs1 read_after_reset)
next
  assume "readFile fs (path_resolve (cwd fs) [getWorkspaceToolQueuePath workspaceDir])
            = Some EMPTY_QUEUE_TEXT
          \<or> readFile fs (path_resolve (cwd fs) [getWorkspaceToolQueuePath workspaceDir]) = None"
  then show "fst (drainWorkspaceToolQueue JSON_parse now1 workspaceDir fs)
               = \<lparr>uploads = [], messages = []\<rparr>"
    using drain_of_empty_text [of JSON_parse fs workspaceDir now1] assms
      drain_of_missing_or_malformed [of fs workspaceDir JSON_parse now1]
    by blast
qed


theorem C8_drain_idempotent_clearing_witness:
  \<open>fst (drainWorkspaceToolQueue
         (\<lambda>raw. if raw = EMPTY_QUEUE_TEXT
                then Some (JObject [(''uploads'', JArray []), (''messages'', JArray [])])
                else if raw = ''{"uploads":["a.pdf"],"messages":["done"]}''
                then Some (JObject [(''uploads'', JArray [JString ''a.pdf'']),
                                    (''messages'', JArray [JString ''done''])])
                else None)
         5000 ''/ws''
         \<lparr>cwd = ''/srv/app'',
          existsSync = (\<lambda>p. p \<in> {''/ws/a.pdf'', ''/ws/.papert/.papert-claw-runtime/tool-queue.json''}),
          mtimeMs = (\<lambda>p. None),
          readFile = (\<lambda>p. if p = ''/ws/.papert/.papert-claw-runtime/tool-queue.json''
                         then Some ''{"uploads":["a.pdf"],"messages":["done"]}'' else None)\<rparr>)
     = \<lparr>uploads = [''/ws/a.pdf''], messages = [''done'']\<rparr>
   \<and> fst (drainWorkspaceToolQueue
         (\<lambda>raw. if raw = EMPTY_QUEUE_TEXT
                then Some (JObject [(''uploads'', JArray []), (''messages'', JArray [])])
                else if raw = ''{"uploads":["a.pdf"],"messages":["done"]}''
                then Some (JObject [(''uploads'', JArray [JString ''a.pdf'']),
                                    (''messages'', JArray [JString ''done''])])
                else None)
         6000 ''/ws''
         (snd (drainWorkspaceToolQueue
           (\<lambda>raw. if raw = EMPTY_QUEUE_TEXT
                  then Some (JObject [(''uploads'', JArray []), (''messages'', JArray [])])
                  else if raw = ''{"uploads":["a.pdf"],"messages":["done"]}''
                  then Some (JObject [(''uploads'', JArray [JString ''a.pdf'']),
                                      (''messages'', JArray [JString ''done''])])
                  else None)
           5000 ''/ws''
           \<lparr>cwd = ''/srv/app'',
            existsSync = (\<lambda>p. p \<in> {''/ws/a.pdf'', ''/ws/.papert/.papert-claw-runtime/tool-queue.json''}),
            mtimeMs = (\<lambda>p. None),
            readFile = (\<lambda>p. if p = ''/ws/.papert/.papert-claw-runtime/tool-queue.json''
                           then Some ''{"uploads":["a.pdf"],"messages":["done"]}'' else None)\<rparr>)))
     = \<lparr>uploads = [], messages = []\<rparr>
   \<and> fst (drainWorkspaceToolQueue
         (\<lambda>raw. if raw = EMPTY_QUEUE_TEXT
                then Some (JObject [(''uploads'', JArray []), (''messages'', JArray [])])
                else if raw = ''{"uploads":["a.pdf"],"messages":["done"]}''
                then Some (JObject [(''uploads'', JArray [JString ''a.pdf'']),
                                    (''messages'', JArray [JString ''done''])])
                else None)
         5000 ''/ws''
         \<lparr>cwd = ''/srv/app'', existsSync = (\<lambda>p. p = ''/ws/a.pdf''), mtimeMs = (\<lambda>p. None),
          readFile = (\<lambda>p. None)\<rparr>)
     = \<lparr>uploads = [], messages = []\<rparr>\<close>
proof -
  let ?parse = \<open>\<lambda>raw. if raw = EMPTY_QUEUE_TEXT
                then Some (JObject [(''uploads'', JArray []), (''messages'', JArray [])])
                else if raw = ''{"uploads":["a.pdf"],"messages":["done"]}''
                then Some (JObject [(''uploads'', JArray [JString ''a.pdf'']),
                                    (''messages'', JArray [JString ''done''])])
                else None\<close>
  let ?fs = \<open>\<lparr>cwd = ''/srv/app'',
          existsSync = (\<lambda>p. p \<in> {''/ws/a.pdf'', ''/ws/.papert/.papert-claw-runtime/tool-queue.json''}),
          mtimeMs = (\<lambda>p. None),
          readFile = (\<lambda>p. if p = ''/ws/.papert/.papert-claw-runtime/tool-queue.json''
                         then Some ''{"uploads":["a.pdf"],"messages":["done"]}'' else None)\<rparr>\<close>
  let ?bare = "\<lparr>cwd = ''/srv/app'', existsSync = (\<lambda>p. p = ''/ws/a.pdf''), mtimeMs = (\<lambda>p. None),
          readFile = (\<lambda>p. None)\<rparr>"
  have p: "?parse EMPTY_QUEUE_TEXT
             = Some (JObject [(''uploads'', JArray []), (''messages'', JArray [])])"
    by simp
  have first: "fst (drainWorkspaceToolQueue ?parse 5000 ''/ws'' ?fs)
                 = \<lparr>uploads = [''/ws/a.pdf''], messages = [''done'']\<rparr>"
    by code_simp
  have none: "readFile ?bare (path_resolve (cwd ?bare) [getWorkspaceToolQueuePath ''/ws'']) = None"
    by simp
  from C8_drain_idempotent_clearing [of ?parse 6000 "''/ws''" 5000 ?fs] p
  have second: "fst (drainWorkspaceToolQueue ?parse 6000 ''/ws''
                  (snd (drainWorkspaceToolQueue ?parse 5000 ''/ws'' ?fs)))
                 = \<lparr>uploads = [], messages = []\<rparr>"
    by blast
  from C8_drain_idempotent_clearing [of ?parse 6000 "''/ws''" 5000 ?bare] p none
  have third: "fst (drainWorkspaceToolQueue ?parse 5000 ''/ws'' ?bare)
                 = \<lparr>uploads = [], messages = []\<rparr>"
    by blast
  from first second third show ?thesis by blast
qed

section \<open>Properties of the upload-selection policy\<close>

lemma unique_acc_fold: "unique_acc seen xs = fold set_add xs seen"
  by (induction xs arbitrary: seen) (simp_all add: set_add_def)

lemma unique_fold: "fold set_add xs [] = unique xs"
  by (simp add: unique_def unique_acc_fold)

lemma unique_acc_length: "length seen \<le> length (unique_acc seen xs)"
proof (induction xs arbitrary: seen)
  case Nil
  show ?case by simp
next
  case (Cons x xs)
  have "length seen \<le> length (if x \<in> set seen then seen else seen @ [x])" by simp
  also have "\<dots> \<le> length (unique_acc (if x \<in> set seen then seen else seen @ [x]) xs)"
    by (rule Cons.IH)
  finally show ?case by simp
qed

lemma unique_nil: "unique [] = []"
  by (simp add: unique_def)

lemma unique_empty: "unique xs = [] \<longleftrightarrow> xs = []"
proof (cases xs)
  case Nil
  then show ?thesis by (simp add: unique_def)
next
  case (Cons x rest)
  have "length [x] \<le> length (unique_acc [x] rest)" by (rule unique_acc_length)
  then have "unique_acc [x] rest \<noteq> []" by auto
  with Cons show ?thesis by (simp add: unique_def)
qed

lemma policy_step_explicit:
  assumes "requested \<noteq> []"
  shows "policy_step fs wroot requested auto candidate (acc, ac)
           = (if valid_candidate fs wroot (path_resolve (cwd fs) [candidate])
                 \<and> (basename (toLowerCase (path_resolve (cwd fs) [candidate])) \<in> set requested
                      \<or> list_ex (\<lambda>name. endsWith (toLowerCase (path_resolve (cwd fs) [candidate])) name)
                           requested)
              then set_add (path_resolve (cwd fs) [candidate]) acc else acc, ac)"
proof -
  from assms have u: "unique requested \<noteq> []" by (simp add: unique_empty)
  show ?thesis
    unfolding policy_step_def Let_def valid_candidate_def inside_workspace_def
    using u by simp
qed

lemma fold_accepting:
  assumes "\<And>c acc. step c (acc, ac) = (if P c then set_add (f c) acc else acc, ac)"
  shows "fold step cs (acc, ac) = (fold set_add (map f (filter P cs)) acc, ac)"
  by (induction cs arbitrary: acc) (simp_all add: assms)

lemma policy_loop_explicit:
  assumes "requested \<noteq> []"
  shows "fold (policy_step fs wroot requested auto) cands (acc, ac)
           = (fold set_add
                (filter (\<lambda>absPath. valid_candidate fs wroot absPath
                     \<and> (basename (toLowerCase absPath) \<in> set requested
                          \<or> list_ex (\<lambda>name. endsWith (toLowerCase absPath) name) requested))
                   (map (\<lambda>candidate. path_resolve (cwd fs) [candidate]) cands)) acc, ac)"
proof -
  let ?f = "\<lambda>candidate. path_resolve (cwd fs) [candidate]"
  let ?Q = "\<lambda>absPath. valid_candidate fs wroot absPath
                     \<and> (basename (toLowerCase absPath) \<in> set requested
                          \<or> list_ex (\<lambda>name. endsWith (toLowerCase absPath) name) requested)"
  have "fold (policy_step fs wroot requested auto) cands (acc, ac)
          = (fold set_add (map ?f (filter (?Q \<circ> ?f) cands)) acc, ac)"
    by (rule fold_accepting) (simp add: policy_step_explicit [OF assms])
  also have "map ?f (filter (?Q \<circ> ?f) cands) = filter ?Q (map ?f cands)"
    by (simp only: filter_map)
  finally show ?thesis .
qed

lemma policy_step_auto:
  "policy_step fs wroot [] auto candidate (acc, ac)
     = (acc, if auto \<and> valid_candidate fs wroot (path_resolve (cwd fs) [candidate])
             then ac @ [path_resolve (cwd fs) [candidate]] else ac)"
  unfolding policy_step_def Let_def valid_candidate_def inside_workspace_def
  by (simp add: unique_def)

lemma policy_loop_auto:
  "fold (policy_step fs wroot [] auto) cands (acc, ac)
     = (acc, if auto
             then ac @ filter (valid_candidate fs wroot)
                          (map (\<lambda>candidate. path_resolve (cwd fs) [candidate]) cands)
             else ac)"
proof (induction cands arbitrary: ac)
  case Nil
  show ?case by simp
next
  case (Cons c cands)
  show ?case
    by (simp add: policy_step_auto Cons.IH)
qed

lemma all_no_names: "shouldAutoSelectAllUploads userMessage \<Longrightarrow> inferRequestedFileNames userMessage = []"
  by (auto simp: shouldAutoSelectAllUploads_def split: if_splits)

lemma latest_no_names:
  "shouldAutoSelectLatestUpload userMessage \<Longrightarrow> inferRequestedFileNames userMessage = []"
  by (auto simp: shouldAutoSelectLatestUpload_def split: if_splits)

lemma policy_explicit:
  assumes "inferRequestedFileNames userMessage \<noteq> []"
  shows "enforceUploadPolicy fs uploadPaths userMessage workspaceDir
           = unique (filter (matches_requested_name userMessage)
                       (valid_candidates fs uploadPaths workspaceDir))"
proof -
  let ?requested = "map toLowerCase (inferRequestedFileNames userMessage)"
  let ?wroot = "path_resolve (cwd fs) [workspaceDir]"
  let ?f = "\<lambda>candidate. path_resolve (cwd fs) [candidate]"
  from assms have ne: "?requested \<noteq> []" by simp
  then have u: "length (unique ?requested) \<noteq> 0" by (simp add: unique_empty)
  have loop: "fold (policy_step fs ?wroot ?requested False) uploadPaths ([], [])
          = (unique (filter (matches_requested_name userMessage)
                       (valid_candidates fs uploadPaths workspaceDir)), [])"
    by (simp add: policy_loop_explicit [OF ne] unique_fold valid_candidates_def
        matches_requested_name_def Let_def filter_filter)
  show ?thesis
    unfolding enforceUploadPolicy_def Let_def
    using u by (simp add: loop)
qed

lemma policy_send_all:
  assumes "shouldAutoSelectAllUploads userMessage"
  shows "enforceUploadPolicy fs uploadPaths userMessage workspaceDir
           = send_all_selection fs uploadPaths workspaceDir"
proof -
  let ?wroot = "path_resolve (cwd fs) [workspaceDir]"
  from assms have n: "inferRequestedFileNames userMessage = []" by (rule all_no_names)
  have u: "length (unique ([] :: string list)) = 0" by (simp add: unique_def)
  have loop: "fold (policy_step fs ?wroot [] True) uploadPaths ([], [])
          = ([], valid_candidates fs uploadPaths workspaceDir)"
    by (simp add: policy_loop_auto valid_candidates_def)
  show ?thesis
    unfolding enforceUploadPolicy_def send_all_selection_def Let_def
    using assms by (simp add: n u loop unique_fold unique_nil)
qed

lemma latest_step_key:
  "latest_step fs wroot path st
     = (if key_better (candidate_key fs wroot path) st then candidate_key fs wroot path else st)"
proof (cases st)
  case (fields sel mt pr)
  show ?thesis
    unfolding fields latest_step_def candidate_key_def key_better_def Let_def
    by (simp only: fst_conv snd_conv)
qed

lemma key_better_trans: "key_better a b \<Longrightarrow> key_better b c \<Longrightarrow> key_better a c"
proof (cases a, cases b, cases c)
  fix s1 s2 s3 :: string and m1 m2 m3 :: "rat option" and p1 p2 p3 :: "nat option"
  assume "key_better a b" "key_better b c"
    and "a = (s1, m1, p1)" "b = (s2, m2, p2)" "c = (s3, m3, p3)"
  then show "key_better a c"
    by (simp add: key_better_def) (meson less_trans)
qed

lemma key_better_total: "a = b \<or> key_better a b \<or> key_better b a"
proof (cases a, cases b)
  fix s1 s2 :: string and m1 m2 :: "rat option" and p1 p2 :: "nat option"
  assume "a = (s1, m1, p1)" "b = (s2, m2, p2)"
  then show ?thesis
    by (simp add: key_better_def) (meson linorder_neqE)
qed

lemma key_better_outranks:
  "key_better (candidate_key fs wroot p) (candidate_key fs wroot q) = outranks fs wroot p q"
  by (simp add: key_better_def candidate_key_def outranks_def)

lemma latest_fold:
  "(fold (latest_step fs wroot) xs st = st
      \<or> (\<exists>p \<in> set xs. fold (latest_step fs wroot) xs st = candidate_key fs wroot p))
   \<and> (fold (latest_step fs wroot) xs st = st \<or> key_better (fold (latest_step fs wroot) xs st) st)
   \<and> (\<forall>q \<in> set xs. candidate_key fs wroot q = fold (latest_step fs wroot) xs st
          \<or> key_better (fold (latest_step fs wroot) xs st) (candidate_key fs wroot q))"
proof (induction xs arbitrary: st)
  case Nil
  show ?case by simp
next
  case (Cons x xs)
  let ?k = "candidate_key fs wroot x"
  let ?st = "latest_step fs wroot x st"
  let ?r = "fold (latest_step fs wroot) xs ?st"
  have r: "fold (latest_step fs wroot) (x # xs) st = ?r" by simp
  from Cons.IH [of ?st]
  have ih1: "?r = ?st \<or> (\<exists>p \<in> set xs. ?r = candidate_key fs wroot p)"
    and ih2: "?r = ?st \<or> key_better ?r ?st"
    and ih3: "\<forall>q \<in> set xs. candidate_key fs wroot q = ?r \<or> key_better ?r (candidate_key fs wroot q)"
    by blast+
  show ?case
  proof (cases "key_better ?k st")
    case True
    then have st: "?st = ?k" by (simp add: latest_step_key)
    have a: "?r = st \<or> (\<exists>p \<in> set (x # xs). ?r = candidate_key fs wroot p)"
      using ih1 st by auto
    have b: "?r = st \<or> key_better ?r st"
    proof (cases "?r = ?k")
      case True
      with \<open>key_better ?k st\<close> show ?thesis by simp
    next
      case False
      with ih2 st have "key_better ?r ?k" by simp
      from key_better_trans [OF this \<open>key_better ?k st\<close>] show ?thesis by simp
    qed
    have c: "?k = ?r \<or> key_better ?r ?k" using ih2 st by auto
    from a b c ih3 show ?thesis unfolding r by auto
  next
    case False
    then have st: "?st = st" by (simp add: latest_step_key)
    have a: "?r = st \<or> (\<exists>p \<in> set (x # xs). ?r = candidate_key fs wroot p)"
      using ih1 st by auto
    have b: "?r = st \<or> key_better ?r st" using ih2 st by simp
    have c: "?k = ?r \<or> key_better ?r ?k"
    proof (cases "?k = st")
      case True
      with b show ?thesis by auto
    next
      case ne: False
      with False key_better_total [of ?k st] have sk: "key_better st ?k" by blast
      show ?thesis
      proof (cases "?r = st")
        case True
        with sk show ?thesis by simp
      next
        case False
        with b have "key_better ?r st" by simp
        from key_better_trans [OF this sk] show ?thesis by simp
      qed
    qed
    from a b c ih3 show ?thesis unfolding r by auto
  qed
qed

lemma policy_send_latest:
  assumes "shouldAutoSelectLatestUpload userMessage"
    and "\<not> shouldAutoSelectAllUploads userMessage"
    and "valid_candidates fs uploadPaths workspaceDir \<noteq> []"
  shows "\<exists>p. enforceUploadPolicy fs uploadPaths userMessage workspaceDir = [p]
             \<and> p \<in> set (valid_candidates fs uploadPaths workspaceDir)
             \<and> (\<forall>q \<in> set (valid_candidates fs uploadPaths workspaceDir).
                    q \<noteq> p \<longrightarrow> outranks fs (path_resolve (cwd fs) [workspaceDir]) p q)"
proof -
  let ?wroot = "path_resolve (cwd fs) [workspaceDir]"
  let ?V = "valid_candidates fs uploadPaths workspaceDir"
  let ?st = "(hd ?V, None :: rat option, None :: nat option)"
  let ?r = "fold (latest_step fs ?wroot) ?V ?st"
  from assms(1) have n: "inferRequestedFileNames userMessage = []" by (rule latest_no_names)
  have u: "length (unique ([] :: string list)) = 0" by (simp add: unique_def)
  have loop: "fold (policy_step fs ?wroot [] True) uploadPaths ([], []) = ([], ?V)"
    by (simp add: policy_loop_auto valid_candidates_def)
  have res: "enforceUploadPolicy fs uploadPaths userMessage workspaceDir = [fst ?r]"
    unfolding enforceUploadPolicy_def Let_def
    using assms by (simp add: n u loop set_add_def)
  from latest_fold [of fs ?wroot ?V ?st]
  have f1: "?r = ?st \<or> (\<exists>p \<in> set ?V. ?r = candidate_key fs ?wroot p)"
    and f3: "\<forall>q \<in> set ?V. candidate_key fs ?wroot q = ?r \<or> key_better ?r (candidate_key fs ?wroot q)"
    by blast+
  from assms(3) have h: "hd ?V \<in> set ?V" by simp
  have low1: "\<not> key_better ?st (candidate_key fs ?wroot (hd ?V))"
    by (simp add: key_better_def candidate_key_def)
  have low2: "candidate_key fs ?wroot (hd ?V) \<noteq> ?st"
    by (simp add: candidate_key_def)
  from f3 h low1 low2 have "?r \<noteq> ?st" by metis
  with f1 obtain p where p: "p \<in> set ?V" "?r = candidate_key fs ?wroot p" by blast
  have o: "outranks fs ?wroot p q" if "q \<in> set ?V" "q \<noteq> p" for q
  proof -
    from f3 that(1) p(2)
    have "candidate_key fs ?wroot q = candidate_key fs ?wroot p
          \<or> key_better (candidate_key fs ?wroot p) (candidate_key fs ?wroot q)"
      by simp
    moreover from that(2) have "candidate_key fs ?wroot q \<noteq> candidate_key fs ?wroot p"
      by (simp add: candidate_key_def)
    ultimately show ?thesis by (simp add: key_better_outranks)
  qed
  from p(2) have "fst ?r = p" by (simp add: candidate_key_def)
  with res have "enforceUploadPolicy fs uploadPaths userMessage workspaceDir = [p]" by simp
  with p(1) o show ?thesis by blast
qed

lemma lowerChar_slash: "lowerChar c = CHR ''/'' \<longleftrightarrow> c = CHR ''/''"
proof (cases c)
  case (Char b0 b1 b2 b3 b4 b5 b6 b7)
  show ?thesis
    unfolding Char
    by (cases b0; cases b1; cases b2; cases b3; cases b4; cases b5; cases b6; cases b7)
      (simp_all add: isUpper_def code_def Let_def)
qed

lemma dropWhile_map_same:
  "(\<And>c. P (f c) = P c) \<Longrightarrow> dropWhile P (map f xs) = map f (dropWhile P xs)"
  by (induction xs) simp_all

lemma takeWhile_map_same:
  "(\<And>c. P (f c) = P c) \<Longrightarrow> takeWhile P (map f xs) = map f (takeWhile P xs)"
  by (induction xs) simp_all

lemma basename_lower: "basename (toLowerCase p) = toLowerCase (basename p)"
proof -
  have d: "dropWhile (\<lambda>c. c = CHR ''/'') (map lowerChar xs)
             = map lowerChar (dropWhile (\<lambda>c. c = CHR ''/'') xs)" for xs
    by (rule dropWhile_map_same) (simp add: lowerChar_slash)
  have t: "takeWhile (\<lambda>c. c \<noteq> CHR ''/'') (map lowerChar xs)
             = map lowerChar (takeWhile (\<lambda>c. c \<noteq> CHR ''/'') xs)" for xs
    by (rule takeWhile_map_same) (simp add: lowerChar_slash)
  show ?thesis
    by (simp add: basename_def toLowerCase_def Let_def rev_map d t)
qed

lemma basename_match:
  assumes "toLowerCase (basename absPath) \<in> set (map toLowerCase (inferRequestedFileNames userMessage))"
  shows "matches_requested_name userMessage absPath"
  using assms by (simp add: matches_requested_name_def Let_def basename_lower)

lemma policy_send_latest_none:
  assumes "shouldAutoSelectLatestUpload userMessage"
    and "valid_candidates fs uploadPaths workspaceDir = []"
  shows "enforceUploadPolicy fs uploadPaths userMessage workspaceDir = []"
proof -
  let ?wroot = "path_resolve (cwd fs) [workspaceDir]"
  from assms(1) have n: "inferRequestedFileNames userMessage = []" by (rule latest_no_names)
  have u: "length (unique ([] :: string list)) = 0" by (simp add: unique_def)
  have loop: "fold (policy_step fs ?wroot [] True) uploadPaths ([], []) = ([], [])"
    using assms(2) by (simp add: policy_loop_auto valid_candidates_def)
  show ?thesis
    unfolding enforceUploadPolicy_def Let_def
    using assms(1) by (simp add: n u loop)
qed

text \<open>
  C4 (as amended). When the user's text names files, the policy accepts exactly the valid
  candidates (inside the workspace, on disk, not under a blocked prefix), each once and in
  the order given, whose lower-cased base name is one of the lower-cased names or whose
  lower-cased path ends with one of them. Every valid candidate whose base name is a named
  file, read without regard to case, is among them. With the candidates \<open>a.pdf\<close> and
  \<open>b.csv\<close> and the text "attach b.csv", only \<open>b.csv\<close> is accepted.
\<close>

theorem C4_explicit_names:
  "(inferRequestedFileNames userMessage \<noteq> [] \<longrightarrow>
      enforceUploadPolicy fs uploadPaths userMessage workspaceDir
        = unique (filter (matches_requested_name userMessage)
                    (valid_candidates fs uploadPaths workspaceDir)))
   \<and> (toLowerCase (basename absPath) \<in> set (map toLowerCase (inferRequestedFileNames userMessage))
        \<longrightarrow> matches_requested_name userMessage absPath)
   \<and> enforceUploadPolicy example_fs [''/ws/a.pdf'', ''/ws/b.csv''] ''attach b.csv'' ''/ws''
       = [''/ws/b.csv'']"
proof (intro conjI impI)
  assume "inferRequestedFileNames userMessage \<noteq> []"
  then show "enforceUploadPolicy fs uploadPaths userMessage workspaceDir
        = unique (filter (matches_requested_name userMessage)
                    (valid_candidates fs uploadPaths workspaceDir))"
    by (rule policy_explicit)
next
  assume "toLowerCase (basename absPath) \<in> set (map toLowerCase (inferRequestedFileNames userMessage))"
  then show "matches_requested_name userMessage absPath" by (rule basename_match)
next
  show "enforceUploadPolicy example_fs [''/ws/a.pdf'', ''/ws/b.csv''] ''attach b.csv'' ''/ws''
       = [''/ws/b.csv'']"
    by code_simp
qed

theorem C4_explicit_names_witness:
  "inferRequestedFileNames ''attach b.csv'' \<noteq> []
   \<and> toLowerCase (basename ''/ws/B.csv'') \<in> set (map toLowerCase (inferRequestedFileNames ''attach b.csv''))
   \<and> matches_requested_name ''attach b.csv'' ''/ws/B.csv''
   \<and> enforceUploadPolicy example_fs [''/ws/a.pdf'', ''/ws/ab.csv'', ''/ws/b.csv'', ''/ws/b.csv'']
         ''attach b.csv'' ''/ws''
       = [''/ws/ab.csv'', ''/ws/b.csv'']"
proof -
  have h1: "inferRequestedFileNames ''attach b.csv'' \<noteq> []" by code_simp
  have h2: "toLowerCase (basename ''/ws/B.csv'')
              \<in> set (map toLowerCase (inferRequestedFileNames ''attach b.csv''))"
    by code_simp
  have v: "unique (filter (matches_requested_name ''attach b.csv'')
             (valid_candidates example_fs [''/ws/a.pdf'', ''/ws/ab.csv'', ''/ws/b.csv'', ''/ws/b.csv'']
                ''/ws''))
           = [''/ws/ab.csv'', ''/ws/b.csv'']"
    by code_simp
  note th = C4_explicit_names [of "''attach b.csv''" example_fs
      "[''/ws/a.pdf'', ''/ws/ab.csv'', ''/ws/b.csv'', ''/ws/b.csv'']" "''/ws''" "''/ws/B.csv''"]
  from th h1 have "enforceUploadPolicy example_fs
        [''/ws/a.pdf'', ''/ws/ab.csv'', ''/ws/b.csv'', ''/ws/b.csv''] ''attach b.csv'' ''/ws''
      = unique (filter (matches_requested_name ''attach b.csv'')
             (valid_candidates example_fs [''/ws/a.pdf'', ''/ws/ab.csv'', ''/ws/b.csv'', ''/ws/b.csv'']
                ''/ws''))"
    by blast
  with v have r: "enforceUploadPolicy example_fs
        [''/ws/a.pdf'', ''/ws/ab.csv'', ''/ws/b.csv'', ''/ws/b.csv''] ''attach b.csv'' ''/ws''
      = [''/ws/ab.csv'', ''/ws/b.csv'']"
    by simp
  from th h2 have m: "matches_requested_name ''attach b.csv'' ''/ws/B.csv''" by blast
  from h1 h2 m r show ?thesis by blast
qed

text \<open>
  C4 as stated fails: for the text "attach b.csv" the candidate \<open>/ws/ab.csv\<close>, whose base
  name \<open>ab.csv\<close> is not the named file, is accepted, because its path ends with \<open>b.csv\<close>.
\<close>

theorem C4_suffix_match_counterexample:
  "inferRequestedFileNames ''attach b.csv'' = [''b.csv'']
   \<and> valid_candidates example_fs [''/ws/ab.csv''] ''/ws'' = [''/ws/ab.csv'']
   \<and> basename ''/ws/ab.csv'' = ''ab.csv''
   \<and> enforceUploadPolicy example_fs [''/ws/ab.csv''] ''attach b.csv'' ''/ws'' = [''/ws/ab.csv'']
   \<and> spec_explicit_selection example_fs [''/ws/ab.csv''] ''attach b.csv'' ''/ws'' = []"
  by code_simp

text \<open>
  C5 (as amended). When the user's text names no file, has an upload verb and the word
  "files", "attachments" or "both", the policy accepts, each once and in the order given:
  the valid candidates under \<open>attachments/\<close> if there is one; else the valid candidates
  other than \<open>session.json\<close> if there is one; else all valid candidates. For the text
  "send the files" with \<open>attachments/x.png\<close>, \<open>attachments/y.png\<close> and \<open>session.json\<close>, the
  two attachments are accepted and \<open>session.json\<close> is not.
\<close>

theorem C5_send_everything:
  "(shouldAutoSelectAllUploads userMessage \<longrightarrow>
      inferRequestedFileNames userMessage = []
      \<and> enforceUploadPolicy fs uploadPaths userMessage workspaceDir
          = send_all_selection fs uploadPaths workspaceDir)
   \<and> enforceUploadPolicy example_fs
         [''/ws/attachments/x.png'', ''/ws/attachments/y.png'', ''/ws/session.json'']
         ''send the files'' ''/ws''
       = [''/ws/attachments/x.png'', ''/ws/attachments/y.png'']"
proof (intro conjI impI)
  assume a: "shouldAutoSelectAllUploads userMessage"
  then show "inferRequestedFileNames userMessage = []" by (rule all_no_names)
  from a show "enforceUploadPolicy fs uploadPaths userMessage workspaceDir
          = send_all_selection fs uploadPaths workspaceDir"
    by (rule policy_send_all)
next
  show "enforceUploadPolicy example_fs
         [''/ws/attachments/x.png'', ''/ws/attachments/y.png'', ''/ws/session.json'']
         ''send the files'' ''/ws''
       = [''/ws/attachments/x.png'', ''/ws/attachments/y.png'']"
    by code_simp
qed

theorem C5_send_everything_witness:
  "shouldAutoSelectAllUploads ''send both''
   \<and> enforceUploadPolicy example_fs [''/ws/report.pdf'', ''/ws/session.json'', ''/ws/a.pdf'']
         ''send both'' ''/ws''
       = [''/ws/report.pdf'', ''/ws/a.pdf'']"
proof -
  have h: "shouldAutoSelectAllUploads ''send both''" by code_simp
  have v: "send_all_selection example_fs [''/ws/report.pdf'', ''/ws/session.json'', ''/ws/a.pdf'']
             ''/ws'' = [''/ws/report.pdf'', ''/ws/a.pdf'']"
    by code_simp
  from C5_send_everything [of "''send both''" example_fs
      "[''/ws/report.pdf'', ''/ws/session.json'', ''/ws/a.pdf'']" "''/ws''"] h
  have "enforceUploadPolicy example_fs [''/ws/report.pdf'', ''/ws/session.json'', ''/ws/a.pdf'']
         ''send both'' ''/ws''
       = send_all_selection example_fs [''/ws/report.pdf'', ''/ws/session.json'', ''/ws/a.pdf'']
             ''/ws''"
    by blast
  with v h show ?thesis by simp
qed

text \<open>
  C5 as stated fails: for the text "send the files" with the valid candidates
  \<open>attachments/x.png\<close> and \<open>report.pdf\<close>, the policy accepts the attachment only, although
  \<open>report.pdf\<close> is a remaining valid candidate and no session-state file.
\<close>

theorem C5_generic_file_dropped_counterexample:
  "shouldAutoSelectAllUploads ''send the files''
   \<and> inferRequestedFileNames ''send the files'' = []
   \<and> valid_candidates example_fs [''/ws/attachments/x.png'', ''/ws/report.pdf''] ''/ws''
       = [''/ws/attachments/x.png'', ''/ws/report.pdf'']
   \<and> enforceUploadPolicy example_fs [''/ws/attachments/x.png'', ''/ws/report.pdf'']
         ''send the files'' ''/ws''
       = [''/ws/attachments/x.png'']
   \<and> spec_send_all_selection example_fs [''/ws/attachments/x.png'', ''/ws/report.pdf''] ''/ws''
       = [''/ws/attachments/x.png'', ''/ws/report.pdf'']"
  by code_simp

text \<open>
  C6. When the user's text names no file, asks for the latest single thing and does not ask
  for everything, and at least one candidate remains (inside the workspace, on disk, not
  under a blocked prefix), the policy accepts exactly one candidate, one of those that
  remain, which outranks every other of them by tier (3 under \<open>attachments/\<close>, 1 for
  \<open>session.json\<close>, 2 otherwise), then by later modification time, then by the greater path.
  Where no candidate remains there is nothing to choose and nothing is accepted. For the
  text "send that file" with two attachments, only the one modified later is accepted.
\<close>

theorem C6_send_latest:
  "(shouldAutoSelectLatestUpload userMessage \<and> \<not> shouldAutoSelectAllUploads userMessage
      \<and> valid_candidates fs uploadPaths workspaceDir \<noteq> [] \<longrightarrow>
      (\<exists>p. enforceUploadPolicy fs uploadPaths userMessage workspaceDir = [p]
           \<and> p \<in> set (valid_candidates fs uploadPaths workspaceDir)
           \<and> (\<forall>q \<in> set (valid_candidates fs uploadPaths workspaceDir).
                  q \<noteq> p \<longrightarrow> outranks fs (path_resolve (cwd fs) [workspaceDir]) p q)))
   \<and> (shouldAutoSelectLatestUpload userMessage
        \<and> valid_candidates fs uploadPaths workspaceDir = [] \<longrightarrow>
      enforceUploadPolicy fs uploadPaths userMessage workspaceDir = [])
   \<and> getAutoSelectionPriority fs absPath workspaceRoot
       = (if isAttachmentCandidate fs absPath workspaceRoot then 3
          else if toLowerCase (basename absPath) = ''session.json'' then 1 else 2)
   \<and> enforceUploadPolicy example_fs [''/ws/attachments/y.png'', ''/ws/attachments/x.png'']
         ''send that file'' ''/ws''
       = [''/ws/attachments/x.png'']"
proof (intro conjI impI)
  assume "shouldAutoSelectLatestUpload userMessage \<and> \<not> shouldAutoSelectAllUploads userMessage
      \<and> valid_candidates fs uploadPaths workspaceDir \<noteq> []"
  then show "\<exists>p. enforceUploadPolicy fs uploadPaths userMessage workspaceDir = [p]
           \<and> p \<in> set (valid_candidates fs uploadPaths workspaceDir)
           \<and> (\<forall>q \<in> set (valid_candidates fs uploadPaths workspaceDir).
                  q \<noteq> p \<longrightarrow> outranks fs (path_resolve (cwd fs) [workspaceDir]) p q)"
    using policy_send_latest [of userMessage fs uploadPaths workspaceDir] by blast
next
  assume "shouldAutoSelectLatestUpload userMessage
        \<and> valid_candidates fs uploadPaths workspaceDir = []"
  then show "enforceUploadPolicy fs uploadPaths userMessage workspaceDir = []"
    using policy_send_latest_none [of userMessage fs uploadPaths workspaceDir] by blast
next
  show "getAutoSelectionPriority fs absPath workspaceRoot
       = (if isAttachmentCandidate fs absPath workspaceRoot then 3
          else if toLowerCase (basename absPath) = ''session.json'' then 1 else 2)"
    by (simp add: getAutoSelectionPriority_def isAttachmentCandidate_def Let_def)
next
  show "enforceUploadPolicy example_fs [''/ws/attachments/y.png'', ''/ws/attachments/x.png'']
         ''send that file'' ''/ws''
       = [''/ws/attachments/x.png'']"
    by code_simp
qed

theorem C6_send_latest_witness:
  "shouldAutoSelectLatestUpload ''please share it''
   \<and> \<not> shouldAutoSelectAllUploads ''please share it''
   \<and> valid_candidates example_fs [''/ws/session.json'', ''/ws/a.pdf'', ''/ws/report.pdf''] ''/ws''
       = [''/ws/session.json'', ''/ws/a.pdf'', ''/ws/report.pdf'']
   \<and> valid_candidates example_fs [''/ws-evil/secret.txt'', ''/ws/missing.txt''] ''/ws'' = []
   \<and> enforceUploadPolicy example_fs [''/ws-evil/secret.txt'', ''/ws/missing.txt'']
         ''please share it'' ''/ws'' = []
   \<and> (\<exists>p. enforceUploadPolicy example_fs [''/ws/session.json'', ''/ws/a.pdf'', ''/ws/report.pdf'']
              ''please share it'' ''/ws'' = [p]
           \<and> p \<in> {''/ws/session.json'', ''/ws/a.pdf'', ''/ws/report.pdf''}
           \<and> (\<forall>q \<in> {''/ws/session.json'', ''/ws/a.pdf'', ''/ws/report.pdf''}.
                  q \<noteq> p \<longrightarrow> outranks example_fs (path_resolve (cwd example_fs) [''/ws'']) p q))"
proof -
  have h1: "shouldAutoSelectLatestUpload ''please share it''" by code_simp
  have h2: "\<not> shouldAutoSelectAllUploads ''please share it''" by code_simp
  have v: "valid_candidates example_fs [''/ws/session.json'', ''/ws/a.pdf'', ''/ws/report.pdf''] ''/ws''
             = [''/ws/session.json'', ''/ws/a.pdf'', ''/ws/report.pdf'']"
    by code_simp
  have e: "valid_candidates example_fs [''/ws-evil/secret.txt'', ''/ws/missing.txt''] ''/ws'' = []"
    by code_simp
  from v have h3: "valid_candidates example_fs
      [''/ws/session.json'', ''/ws/a.pdf'', ''/ws/report.pdf''] ''/ws'' \<noteq> []"
    by simp
  from C6_send_latest [of "''please share it''" example_fs
      "[''/ws/session.json'', ''/ws/a.pdf'', ''/ws/report.pdf'']" "''/ws''"] h1 h2 h3
  have "\<exists>p. enforceUploadPolicy example_fs [''/ws/session.json'', ''/ws/a.pdf'', ''/ws/report.pdf'']
              ''please share it'' ''/ws'' = [p]
           \<and> p \<in> set (valid_candidates example_fs
                 [''/ws/session.json'', ''/ws/a.pdf'', ''/ws/report.pdf''] ''/ws'')
           \<and> (\<forall>q \<in> set (valid_candidates example_fs
                 [''/ws/session.json'', ''/ws/a.pdf'', ''/ws/report.pdf''] ''/ws'').
                  q \<noteq> p \<longrightarrow> outranks example_fs (path_resolve (cwd example_fs) [''/ws'']) p q)"
    by blast
  then have one: "\<exists>p. enforceUploadPolicy example_fs
              [''/ws/session.json'', ''/ws/a.pdf'', ''/ws/report.pdf''] ''please share it'' ''/ws'' = [p]
           \<and> p \<in> {''/ws/session.json'', ''/ws/a.pdf'', ''/ws/report.pdf''}
           \<and> (\<forall>q \<in> {''/ws/session.json'', ''/ws/a.pdf'', ''/ws/report.pdf''}.
                  q \<noteq> p \<longrightarrow> outranks example_fs (path_resolve (cwd example_fs) [''/ws'']) p q)"
    unfolding v by simp
  from C6_send_latest [of "''please share it''" example_fs
      "[''/ws-evil/secret.txt'', ''/ws/missing.txt'']" "''/ws''"] h1 e
  have none: "enforceUploadPolicy example_fs [''/ws-evil/secret.txt'', ''/ws/missing.txt'']
         ''please share it'' ''/ws'' = []"
    by blast
  from h1 h2 v e none one show ?thesis by blast
qed

end
